theory Spec2Isabelle
  imports Main "HOL-Library.Word"
begin

section \<open>Data model\<close>

text \<open>
  The Go sources are \<^verbatim>\<open>pkg/sensor\<close>'s syscall and network event sources. Machine
  integers keep their width: \<^verbatim>\<open>int64\<close> is a 64-bit word read as two's complement
  (\<open>sint\<close>), the unsigned types are words read with \<open>unat\<close>. The Go \<^verbatim>\<open>error\<close>
  is carried as its message. The type of event group identifiers and the type of filter
  expressions are declared outside the files at hand; they are carried as \<open>int\<close> and
  as the expression's text.
\<close>

type_synonym int64 = "64 word"
type_synonym uint64 = "64 word"
type_synonym uint32 = "32 word"
type_synonym uint16 = "16 word"
type_synonym err = string
type_synonym groupID = int
type_synonym Expression = string

text \<open>The sample handlers that the registration functions hand to the tracing engine.\<close>

datatype handler =
    fn_handleDummySysEnter
  | fn_handleSyscallTraceEnter
  | fn_handleSysExit
  | fn_handleSysEnterAccept
  | fn_handleSysExitAccept
  | fn_handleSysBind
  | fn_handleSysExitBind
  | fn_handleSysConnect
  | fn_handleSysExitConnect
  | fn_handleSysEnterListen
  | fn_handleSysExitListen
  | fn_handleSysEnterRecvfrom
  | fn_handleSysExitRecvfrom
  | fn_handleSysSendto
  | fn_handleSysExitSendto

text \<open>
  Every call that leaves the package (to the monitor, the sensor's symbol table or the
  subscription's status log) is recorded, oldest first, with the answer it got. The log is
  the observable behaviour the properties below speak about.
\<close>

datatype call =
    DoesTracepointExist string
  | IsKernelSymbolAvailable string
  | RegisterEventGroup "err + groupID"
  | RegisterTracepoint string handler groupID string "err + uint64"
  | RegisterKprobe string bool string handler groupID Expression bool "err + uint64"
  | UnregisterEvent uint64
  | LogStatus string

text \<open>
  The collaborators' behaviour is a parameter. Tracepoint and symbol availability and the
  kernel version are properties of the running kernel; the answer to a registration
  request may depend on everything that was asked before.
\<close>

record env =
  tracepoints :: "string \<Rightarrow> bool"
  kernel_symbols :: "string \<Rightarrow> bool"
  kernel_major :: int
  tracepoint_reply :: "call list \<Rightarrow> string \<Rightarrow> err + uint64"
  group_reply :: "call list \<Rightarrow> err + groupID"
  kprobe_reply :: "call list \<Rightarrow> string \<Rightarrow> err + uint64"

text \<open>
  The sensor's fields used by the syscall event source, together with the package-level
  variables \<^verbatim>\<open>syscallOnce\<close>, \<^verbatim>\<open>syscallEnterName\<close>, \<^verbatim>\<open>syscallExitName\<close> and the log
  of calls. All of it is process-wide state shared by the subscriptions.
\<close>

record sensor =
  dummySyscallEventCount :: int64
  dummySyscallEventID :: uint64
  ContainerCache_EventGroupID :: groupID
  syscallOnce :: bool
  syscallEnterName :: string
  syscallExitName :: string
  calls :: "call list"

record eventSink =
  eventID :: uint64
  unregister :: "(sensor \<Rightarrow> sensor) option"

record Subscription =
  eventGroupID :: groupID
  eventSinks :: "eventSink list"

datatype fatal = Fatal string

definition new_sensor :: "groupID \<Rightarrow> sensor" where
  "new_sensor g =
     \<lparr>dummySyscallEventCount = 0, dummySyscallEventID = 0, ContainerCache_EventGroupID = g,
      syscallOnce = False, syscallEnterName = [], syscallExitName = [], calls = []\<rparr>"

definition new_Subscription :: Subscription where
  "new_Subscription = \<lparr>eventGroupID = 0, eventSinks = []\<rparr>"

section \<open>Kernel compatibility: names, symbols, fetch arguments\<close>

definition syscallNewEnterKprobeAddress :: string where
  "syscallNewEnterKprobeAddress = ''syscall_trace_enter_phase1''"

definition syscallOldEnterKprobeAddress :: string where
  "syscallOldEnterKprobeAddress = ''syscall_trace_enter''"

definition syscallEnterKprobeFetchargs :: string where
  "syscallEnterKprobeFetchargs =
     ''id=+120(%di):s64 '' @
     ''arg0=+112(%di):u64 '' @
     ''arg1=+104(%di):u64 '' @
     ''arg2=+96(%di):u64 '' @
     ''arg3=+56(%di):u64 '' @
     ''arg4=+72(%di):u64 '' @
     ''arg5=+64(%di):u64''"

definition initSyscallNames :: "env \<Rightarrow> sensor \<Rightarrow> fatal + sensor" where
  "initSyscallNames e sn =
     (let sn1 = sn\<lparr>syscallEnterName := ''raw_syscalls/sys_enter''\<rparr>;
          sn2 = sn1\<lparr>calls := calls sn1 @ [DoesTracepointExist (syscallEnterName sn1)]\<rparr>
      in if tracepoints e (syscallEnterName sn1)
         then Inr (sn2\<lparr>syscallExitName := ''raw_syscalls/sys_exit''\<rparr>)
         else
           (let sn3 = sn2\<lparr>syscallEnterName := ''syscalls/sys_enter''\<rparr>;
                sn4 = sn3\<lparr>calls := calls sn3 @ [DoesTracepointExist (syscallEnterName sn3)]\<rparr>
            in if \<not> tracepoints e (syscallEnterName sn3)
               then Inl (Fatal ''No syscall sys_enter tracepoint exists!'')
               else Inr (sn4\<lparr>syscallExitName := ''syscalls/sys_exit''\<rparr>)))"

text \<open>
  \<^verbatim>\<open>syscallOnce.Do(f)\<close>: Go's \<^verbatim>\<open>sync.Once\<close> runs \<open>f\<close> on the first call only. A fatal
  log in \<open>f\<close> ends the process, so nothing is marked done in that case.
\<close>

definition syscallOnce_Do :: "(sensor \<Rightarrow> fatal + sensor) \<Rightarrow> sensor \<Rightarrow> fatal + sensor" where
  "syscallOnce_Do f sn =
     (if syscallOnce sn then Inr sn
      else (case f sn of Inl x \<Rightarrow> Inl x | Inr sn' \<Rightarrow> Inr (sn'\<lparr>syscallOnce := True\<rparr>)))"

section \<open>The dummy syscall probe\<close>

text \<open>\<^verbatim>\<open>atomic.AddInt64\<close> adds with wrap-around and returns the new value.\<close>

definition atomic_AddInt64 :: "int64 \<Rightarrow> int64 \<Rightarrow> int64" where
  "atomic_AddInt64 v delta = v + delta"

text \<open>
  Modelled from the spec: \<^verbatim>\<open>Subscription.logStatus\<close> is not among the sources; it
  reports a message against the subscription. The message is appended to the call log.
\<close>

definition logStatus :: "string \<Rightarrow> sensor \<Rightarrow> sensor" where
  "logStatus msg sn = sn\<lparr>calls := calls sn @ [LogStatus msg]\<rparr>"

definition dummyFilter :: string where
  "dummyFilter = ''id == 0x7fffffff''"

definition registerGlobalDummySyscallEvent :: "env \<Rightarrow> sensor \<Rightarrow> bool \<times> sensor" where
  "registerGlobalDummySyscallEvent e sn =
     (let n = atomic_AddInt64 (dummySyscallEventCount sn) 1;
          sn1 = sn\<lparr>dummySyscallEventCount := n\<rparr>
      in if n = 1 then
           (let r = tracepoint_reply e (calls sn1) (syscallEnterName sn1);
                sn2 = sn1\<lparr>calls := calls sn1 @
                        [RegisterTracepoint (syscallEnterName sn1) fn_handleDummySysEnter
                           (ContainerCache_EventGroupID sn1) dummyFilter r]\<rparr>
            in case r of
                 Inl er \<Rightarrow>
                   (let sn3 = logStatus (''Could not register dummy syscall event '' @
                                 syscallEnterName sn2 @ '': '' @ er) sn2
                    in (False, sn3\<lparr>dummySyscallEventCount :=
                                 atomic_AddInt64 (dummySyscallEventCount sn3) (- 1)\<rparr>))
               | Inr evID \<Rightarrow> (True, sn2\<lparr>dummySyscallEventID := evID\<rparr>))
         else (True, sn1))"

text \<open>
  The closure that \<^verbatim>\<open>RegisterSyscallEnterEventFilter\<close> builds for kernels from 3.x on:
  it reads the dummy event's id, decrements the count, and unregisters the event when the
  new count is 0. Its event sink argument is unused.
\<close>

definition unregister_closure :: "sensor \<Rightarrow> sensor" where
  "unregister_closure sn =
     (let evID = dummySyscallEventID sn;
          n = atomic_AddInt64 (dummySyscallEventCount sn) (- 1);
          sn1 = sn\<lparr>dummySyscallEventCount := n\<rparr>
      in if n = 0 then sn1\<lparr>calls := calls sn1 @ [UnregisterEvent evID]\<rparr> else sn1)"

text \<open>
  Modelled from the spec: \<^verbatim>\<open>Subscription.createEventGroup\<close> is not among the sources.
  Each subscription creates its own event group with the tracing engine; on success the
  group's id becomes the subscription's \<^verbatim>\<open>eventGroupID\<close>.
\<close>

definition createEventGroup ::
  "env \<Rightarrow> sensor \<times> Subscription \<Rightarrow> err option \<times> sensor \<times> Subscription" where
  "createEventGroup e ss =
     (let sn = fst ss; sub = snd ss;
          r = group_reply e (calls sn);
          sn1 = sn\<lparr>calls := calls sn @ [RegisterEventGroup r]\<rparr>
      in case r of
           Inl er \<Rightarrow> (Some er, sn1, sub)
         | Inr g \<Rightarrow> (None, sn1, sub\<lparr>eventGroupID := g\<rparr>))"

definition registerLocalDummySyscallEvent ::
  "env \<Rightarrow> sensor \<times> Subscription \<Rightarrow> bool \<times> sensor \<times> Subscription" where
  "registerLocalDummySyscallEvent e ss =
     (case createEventGroup e ss of
        (Some er, sn1, sub1) \<Rightarrow>
          (False, logStatus (''Could not create subscription event group: '' @ er) sn1, sub1)
      | (None, sn1, sub1) \<Rightarrow>
          (let r = tracepoint_reply e (calls sn1) (syscallEnterName sn1);
               sn2 = sn1\<lparr>calls := calls sn1 @
                       [RegisterTracepoint (syscallEnterName sn1) fn_handleDummySysEnter
                          (eventGroupID sub1) dummyFilter r]\<rparr>
           in case r of
                Inl er \<Rightarrow>
                  (False,
                   logStatus (''Could not register dummy syscall event '' @
                      syscallEnterName sn2 @ '': '' @ er) sn2,
                   sub1)
              | Inr _ \<Rightarrow> (True, sn2, sub1)))"

text \<open>
  Modelled from the spec: \<^verbatim>\<open>Subscription.registerKprobe\<close> is not among the sources. It
  submits the request (symbol, return flag, fetch arguments, handler, the subscription's
  event group, filter) to the tracing engine; on success it returns the new event sink,
  which the subscription owns from then on, with no unregister hook yet.
\<close>

definition registerKprobe ::
  "env \<Rightarrow> string \<Rightarrow> bool \<Rightarrow> string \<Rightarrow> handler \<Rightarrow> Expression \<Rightarrow> bool \<Rightarrow>
   sensor \<times> Subscription \<Rightarrow> (err + eventSink) \<times> sensor \<times> Subscription" where
  "registerKprobe e symbol onReturn fetchargs fn filt flag ss =
     (let sn = fst ss; sub = snd ss;
          r = kprobe_reply e (calls sn) symbol;
          sn1 = sn\<lparr>calls := calls sn @
                  [RegisterKprobe symbol onReturn fetchargs fn (eventGroupID sub) filt flag r]\<rparr>
      in case r of
           Inl er \<Rightarrow> (Inl er, sn1, sub)
         | Inr i \<Rightarrow>
             (let es = \<lparr>eventID = i, unregister = None\<rparr>
              in (Inr es, sn1, sub\<lparr>eventSinks := eventSinks sub @ [es]\<rparr>)))"

text \<open>
  \<^verbatim>\<open>sensor.IsKernelSymbolAvailable\<close>, with the query recorded.
\<close>

definition IsKernelSymbolAvailable_q :: "env \<Rightarrow> string \<Rightarrow> sensor \<Rightarrow> bool \<times> sensor" where
  "IsKernelSymbolAvailable_q e symbol sn =
     (kernel_symbols e symbol, sn\<lparr>calls := calls sn @ [IsKernelSymbolAvailable symbol]\<rparr>)"

text \<open>
  \<^verbatim>\<open>RegisterSyscallEnterEventFilter\<close>. The event sink that \<^verbatim>\<open>registerKprobe\<close> returns
  is a pointer to the sink the subscription holds, so the assignment
  \<^verbatim>\<open>es.unregister = unregister\<close> changes the last sink of the subscription.
\<close>

definition RegisterSyscallEnterEventFilter ::
  "env \<Rightarrow> Expression \<Rightarrow> sensor \<times> Subscription \<Rightarrow> fatal + sensor \<times> Subscription" where
  "RegisterSyscallEnterEventFilter e filt ss =
     (case syscallOnce_Do (initSyscallNames e) (fst ss) of
        Inl x \<Rightarrow> Inl x
      | Inr sn0 \<Rightarrow>
          (let (result, unreg, ss1) =
                 (if kernel_major e < 3
                  then (case registerLocalDummySyscallEvent e (sn0, snd ss) of
                          (r, sn1, sub1) \<Rightarrow> (r, None, (sn1, sub1)))
                  else (case registerGlobalDummySyscallEvent e sn0 of
                          (r, sn1) \<Rightarrow> (r, Some unregister_closure, (sn1, snd ss))))
           in if result then
                (let (avail, sn2) =
                       IsKernelSymbolAvailable_q e syscallNewEnterKprobeAddress (fst ss1);
                     kprobeSymbol =
                       (if \<not> avail then syscallOldEnterKprobeAddress
                        else syscallNewEnterKprobeAddress)
                 in case registerKprobe e kprobeSymbol False syscallEnterKprobeFetchargs
                           fn_handleSyscallTraceEnter filt False (sn2, snd ss1) of
                      (Inl er, sn3, sub3) \<Rightarrow>
                        (case unreg of
                           Some u \<Rightarrow> Inr (u sn3, sub3)
                         | None \<Rightarrow> Inr (sn3, sub3))
                    | (Inr es, sn3, sub3) \<Rightarrow>
                        Inr (sn3, sub3\<lparr>eventSinks :=
                               butlast (eventSinks sub3) @ [es\<lparr>unregister := unreg\<rparr>]\<rparr>))
              else Inr ss1))"

text \<open>
  Modelled from the spec: \<^verbatim>\<open>Subscription.registerTracepoint\<close> is not among the sources.
  It submits the tracepoint request (name, handler, the subscription's event group,
  filter) to the tracing engine; on success the subscription owns the new event sink.
\<close>

definition registerTracepoint ::
  "env \<Rightarrow> string \<Rightarrow> handler \<Rightarrow> Expression \<Rightarrow> sensor \<times> Subscription \<Rightarrow>
   sensor \<times> Subscription" where
  "registerTracepoint e name fn filt ss =
     (let sn = fst ss; sub = snd ss;
          r = tracepoint_reply e (calls sn) name;
          sn1 = sn\<lparr>calls := calls sn @ [RegisterTracepoint name fn (eventGroupID sub) filt r]\<rparr>
      in case r of
           Inl er \<Rightarrow> (sn1, sub)
         | Inr i \<Rightarrow>
             (sn1, sub\<lparr>eventSinks := eventSinks sub @ [\<lparr>eventID = i, unregister = None\<rparr>]\<rparr>))"

definition RegisterSyscallExitEventFilter ::
  "env \<Rightarrow> Expression \<Rightarrow> sensor \<times> Subscription \<Rightarrow> fatal + sensor \<times> Subscription" where
  "RegisterSyscallExitEventFilter e filt ss =
     (case syscallOnce_Do (initSyscallNames e) (fst ss) of
        Inl x \<Rightarrow> Inl x
      | Inr sn0 \<Rightarrow>
          Inr (registerTracepoint e (syscallExitName sn0) fn_handleSysExit filt (sn0, snd ss)))"

section \<open>Subscriptions coming and going\<close>

text \<open>
  Modelled from the spec: the teardown of a subscription is not among the sources.
  Teardown unregisters every probe the subscription owns and releases the dummy-probe
  dependency through the release hook bundled with the probe's handle, when there is one:
  for every event sink, the sink's event is unregistered with the engine and the sink's
  unregister hook, if installed, is run.
\<close>

fun removeEventSinks :: "eventSink list \<Rightarrow> sensor \<Rightarrow> sensor" where
  "removeEventSinks [] sn = sn"
| "removeEventSinks (es # rest) sn =
     removeEventSinks rest
       (let sn1 = sn\<lparr>calls := calls sn @ [UnregisterEvent (eventID es)]\<rparr>
        in case unregister es of None \<Rightarrow> sn1 | Some u \<Rightarrow> u sn1)"

definition teardown :: "sensor \<times> Subscription \<Rightarrow> sensor \<times> Subscription" where
  "teardown ss =
     (removeEventSinks (eventSinks (snd ss)) (fst ss), (snd ss)\<lparr>eventSinks := []\<rparr>)"

text \<open>
  Several subscriptions share one sensor. A client subscribes to syscall enter events on
  subscription \<open>i\<close>, or unsubscribes subscription \<open>i\<close>; a fatal log ends the run.
\<close>

datatype client_op = Subscribe nat Expression | Unsubscribe nat

type_synonym world = "sensor \<times> (nat \<Rightarrow> Subscription)"

fun client_step :: "env \<Rightarrow> world \<Rightarrow> client_op \<Rightarrow> fatal + world" where
  "client_step e (sn, subs) (Subscribe i filt) =
     (case RegisterSyscallEnterEventFilter e filt (sn, subs i) of
        Inl x \<Rightarrow> Inl x
      | Inr (sn', sub') \<Rightarrow> Inr (sn', subs(i := sub')))"
| "client_step e (sn, subs) (Unsubscribe i) =
     (case teardown (sn, subs i) of (sn', sub') \<Rightarrow> Inr (sn', subs(i := sub')))"

fun client_run :: "env \<Rightarrow> world \<Rightarrow> client_op list \<Rightarrow> fatal + world" where
  "client_run e w [] = Inr w"
| "client_run e w (x # xs) =
     (case client_step e w x of Inl f \<Rightarrow> Inl f | Inr w' \<Rightarrow> client_run e w' xs)"

section \<open>Sequences of acquires and releases of the global dummy probe\<close>

text \<open>
  An acquire is a call of \<^verbatim>\<open>registerGlobalDummySyscallEvent\<close>, a release a call of the
  unregister closure. In this section the operations are taken whole: each runs to its
  end before the next one starts, in any order. Their single steps, interleaved, follow in
  the next section.
\<close>

datatype op = Acquire | Release

fun step :: "env \<Rightarrow> sensor \<Rightarrow> op \<Rightarrow> sensor" where
  "step e sn Acquire = snd (registerGlobalDummySyscallEvent e sn)"
| "step e sn Release = unregister_closure sn"

fun run :: "env \<Rightarrow> sensor \<Rightarrow> op list \<Rightarrow> sensor" where
  "run e sn [] = sn"
| "run e sn (x # xs) = run e (step e sn x) xs"

section \<open>The steps of an acquire and of a release\<close>

text \<open>
  Subscriptions run concurrently, so an acquire and a release are not single steps. One
  subscription goes through the following places; between any two of them the other
  subscriptions may run.
  \<^item> \<open>AcqAdd\<close>: \<^verbatim>\<open>registerGlobalDummySyscallEvent\<close> is about to add 1 to the count. If the
    new count is 1 it goes on to \<open>AcqCall\<close>, otherwise the acquire has returned true
    (\<open>Holding\<close>).
  \<^item> \<open>AcqCall\<close>: about to call \<^verbatim>\<open>RegisterTracepoint\<close>; then \<open>AcqStore\<close> with the new
    event id, or \<open>AcqLog\<close> with the error.
  \<^item> \<open>AcqStore\<close>: about to store the id in \<^verbatim>\<open>dummySyscallEventID\<close>; the acquire then
    returns true (\<open>Holding\<close>).
  \<^item> \<open>AcqLog\<close>, \<open>AcqRollback\<close>: about to log the failure, then to add -1 to the
    count; the acquire then returns false and nothing is released (\<open>Done\<close>).
  \<^item> \<open>Holding\<close>: the unregister closure is about to read \<^verbatim>\<open>dummySyscallEventID\<close>.
  \<^item> \<open>RelAdd\<close>: about to add -1 to the count. If the new count is 0 it goes on to
    \<open>RelCall\<close>, otherwise the release has returned (\<open>Done\<close>).
  \<^item> \<open>RelCall\<close>: about to call \<^verbatim>\<open>UnregisterEvent\<close> with the id read before.
\<close>

datatype pc =
    AcqAdd
  | AcqCall
  | AcqStore uint64
  | AcqLog err
  | AcqRollback
  | Holding
  | RelAdd uint64
  | RelCall uint64
  | Done

fun pc_step :: "env \<Rightarrow> sensor \<Rightarrow> pc \<Rightarrow> sensor \<times> pc" where
  "pc_step e sn AcqAdd =
     (let n = atomic_AddInt64 (dummySyscallEventCount sn) 1
      in (sn\<lparr>dummySyscallEventCount := n\<rparr>, if n = 1 then AcqCall else Holding))"
| "pc_step e sn AcqCall =
     (let r = tracepoint_reply e (calls sn) (syscallEnterName sn)
      in (sn\<lparr>calls := calls sn @
               [RegisterTracepoint (syscallEnterName sn) fn_handleDummySysEnter
                  (ContainerCache_EventGroupID sn) dummyFilter r]\<rparr>,
          case r of Inl er \<Rightarrow> AcqLog er | Inr evID \<Rightarrow> AcqStore evID))"
| "pc_step e sn (AcqLog er) =
     (logStatus (''Could not register dummy syscall event '' @
        syscallEnterName sn @ '': '' @ er) sn,
      AcqRollback)"
| "pc_step e sn AcqRollback =
     (sn\<lparr>dummySyscallEventCount := atomic_AddInt64 (dummySyscallEventCount sn) (- 1)\<rparr>,
      Done)"
| "pc_step e sn (AcqStore evID) = (sn\<lparr>dummySyscallEventID := evID\<rparr>, Holding)"
| "pc_step e sn Holding = (sn, RelAdd (dummySyscallEventID sn))"
| "pc_step e sn (RelAdd evID) =
     (let n = atomic_AddInt64 (dummySyscallEventCount sn) (- 1)
      in (sn\<lparr>dummySyscallEventCount := n\<rparr>, if n = 0 then RelCall evID else Done))"
| "pc_step e sn (RelCall evID) = (sn\<lparr>calls := calls sn @ [UnregisterEvent evID]\<rparr>, Done)"
| "pc_step e sn Done = (sn, Done)"

text \<open>
  A pool of subscriptions and a schedule: the list of the subscriptions' numbers in the
  order in which they take their next step. Every interleaving of the steps is a schedule.
\<close>

fun sched_step :: "env \<Rightarrow> sensor \<times> pc list \<Rightarrow> nat \<Rightarrow> sensor \<times> pc list" where
  "sched_step e (sn, ts) i =
     (if i < length ts
      then (case pc_step e sn (ts ! i) of (sn', p') \<Rightarrow> (sn', ts[i := p']))
      else (sn, ts))"

fun exec :: "env \<Rightarrow> sensor \<times> pc list \<Rightarrow> nat list \<Rightarrow> sensor \<times> pc list" where
  "exec e st [] = st"
| "exec e st (i # sched) = exec e (sched_step e st i) sched"

section \<open>Samples and telemetry events\<close>

text \<open>
  Modelled from the spec: \<^verbatim>\<open>perf.Sample\<close> and its getters are not among the sources. A
  raw sample is a mapping from field names to typed values that may lack a field. A
  getter returns the field's value, or the zero value of the getter's type together with
  an error when the field is absent or holds a value of another type.
\<close>

datatype sample_value =
    SignedInt64 int64
  | UnsignedInt16 uint16
  | UnsignedInt32 uint32
  | UnsignedInt64 uint64
  | String string

type_synonym Sample = "string \<rightharpoonup> sample_value"

definition GetSignedInt64 :: "Sample \<Rightarrow> string \<Rightarrow> int64 \<times> err option" where
  "GetSignedInt64 sample name =
     (case sample name of
        Some (SignedInt64 v) \<Rightarrow> (v, None)
      | Some _ \<Rightarrow> (0, Some ''type mismatch'')
      | None \<Rightarrow> (0, Some ''no such field''))"

definition GetUnsignedInt16 :: "Sample \<Rightarrow> string \<Rightarrow> uint16 \<times> err option" where
  "GetUnsignedInt16 sample name =
     (case sample name of
        Some (UnsignedInt16 v) \<Rightarrow> (v, None)
      | Some _ \<Rightarrow> (0, Some ''type mismatch'')
      | None \<Rightarrow> (0, Some ''no such field''))"

definition GetUnsignedInt32 :: "Sample \<Rightarrow> string \<Rightarrow> uint32 \<times> err option" where
  "GetUnsignedInt32 sample name =
     (case sample name of
        Some (UnsignedInt32 v) \<Rightarrow> (v, None)
      | Some _ \<Rightarrow> (0, Some ''type mismatch'')
      | None \<Rightarrow> (0, Some ''no such field''))"

definition GetUnsignedInt64 :: "Sample \<Rightarrow> string \<Rightarrow> uint64 \<times> err option" where
  "GetUnsignedInt64 sample name =
     (case sample name of
        Some (UnsignedInt64 v) \<Rightarrow> (v, None)
      | Some _ \<Rightarrow> (0, Some ''type mismatch'')
      | None \<Rightarrow> (0, Some ''no such field''))"

definition GetString :: "Sample \<Rightarrow> string \<Rightarrow> string \<times> err option" where
  "GetString sample name =
     (case sample name of
        Some (String v) \<Rightarrow> (v, None)
      | Some _ \<Rightarrow> ([], Some ''type mismatch'')
      | None \<Rightarrow> ([], Some ''no such field''))"









text \<open>
  The event structs. The common \<^verbatim>\<open>TelemetryEventData\<close> is declared outside the files at
  hand, so the events are parametric in it (the type variable \<open>'t\<close>). The structs
  embedded in the network events are records; an event is one constructor per Go struct,
  with the fields in the order of the struct.
\<close>

record NetworkAttemptTelemetryEventData =
  FD :: uint64

record NetworkAddressTelemetryEventData =
  Family :: uint16
  UnixPath :: string
  IPv4Address :: uint32
  IPv4Port :: uint16
  IPv6AddressHigh :: uint64
  IPv6AddressLow :: uint64
  IPv6Port :: uint16

record NetworkResultTelemetryEventData =
  Return :: int64

datatype 't TelemetryEvent =
    SyscallEnterTelemetryEvent 't int64 "uint64 list"
  | SyscallExitTelemetryEvent 't int64 int64
  | NetworkAcceptAttemptTelemetryEvent 't NetworkAttemptTelemetryEventData
  | NetworkAcceptResultTelemetryEvent 't NetworkResultTelemetryEventData
  | NetworkBindAttemptTelemetryEvent 't NetworkAttemptTelemetryEventData
      NetworkAddressTelemetryEventData
  | NetworkBindResultTelemetryEvent 't NetworkResultTelemetryEventData
  | NetworkConnectAttemptTelemetryEvent 't NetworkAttemptTelemetryEventData
      NetworkAddressTelemetryEventData
  | NetworkConnectResultTelemetryEvent 't NetworkResultTelemetryEventData
  | NetworkListenAttemptTelemetryEvent 't NetworkAttemptTelemetryEventData uint64
  | NetworkListenResultTelemetryEvent 't NetworkResultTelemetryEventData
  | NetworkRecvfromAttemptTelemetryEvent 't NetworkAttemptTelemetryEventData
  | NetworkRecvfromResultTelemetryEvent 't NetworkResultTelemetryEventData
  | NetworkSendtoAttemptTelemetryEvent 't NetworkAttemptTelemetryEventData
      NetworkAddressTelemetryEventData
  | NetworkSendtoResultTelemetryEvent 't NetworkResultTelemetryEventData


text \<open>The zero values that Go gives to a struct declared with \<^verbatim>\<open>var\<close>.\<close>

definition zero_NetworkAttempt :: NetworkAttemptTelemetryEventData where
  "zero_NetworkAttempt = \<lparr>FD = 0\<rparr>"

definition zero_NetworkAddress :: NetworkAddressTelemetryEventData where
  "zero_NetworkAddress =
     \<lparr>Family = 0, UnixPath = [], IPv4Address = 0, IPv4Port = 0,
      IPv6AddressHigh = 0, IPv6AddressLow = 0, IPv6Port = 0\<rparr>"


text \<open>
  The address families of \<^verbatim>\<open>golang.org/x/sys/unix\<close> on Linux.
\<close>

definition AF_LOCAL :: uint16 where "AF_LOCAL = 1"
definition AF_INET :: uint16 where "AF_INET = 2"
definition AF_INET6 :: uint16 where "AF_INET6 = 10"

section \<open>Decoding samples\<close>

definition NetworkAttempt_initWithSample ::
  "Sample \<Rightarrow> NetworkAttemptTelemetryEventData \<Rightarrow> NetworkAttemptTelemetryEventData" where
  "NetworkAttempt_initWithSample sample ted =
     ted\<lparr>FD := fst (GetUnsignedInt64 sample ''fd'')\<rparr>"

definition NetworkAddress_initWithSample ::
  "Sample \<Rightarrow> NetworkAddressTelemetryEventData \<Rightarrow> NetworkAddressTelemetryEventData" where
  "NetworkAddress_initWithSample sample ted =
     (let ted1 = ted\<lparr>Family := fst (GetUnsignedInt16 sample ''sa_family'')\<rparr>
      in if Family ted1 = AF_LOCAL then
           ted1\<lparr>UnixPath := fst (GetString sample ''sun_path'')\<rparr>
         else if Family ted1 = AF_INET then
           ted1\<lparr>IPv4Address := fst (GetUnsignedInt32 sample ''sin_addr''),
                IPv4Port := fst (GetUnsignedInt16 sample ''sin_port'')\<rparr>
         else if Family ted1 = AF_INET6 then
           ted1\<lparr>IPv6AddressHigh := fst (GetUnsignedInt64 sample ''sin6_addr_high''),
                IPv6AddressLow := fst (GetUnsignedInt64 sample ''sin6_addr_low''),
                IPv6Port := fst (GetUnsignedInt16 sample ''sin6_port'')\<rparr>
         else ted1)"


text \<open>
  Modelled from the spec: \<^verbatim>\<open>Subscription.DispatchEvent\<close> is not among the sources. It
  forwards the event to the subscriber; the events delivered so far are kept in order.
\<close>

definition DispatchEvent ::
  "uint64 \<Rightarrow> 't TelemetryEvent \<Rightarrow> (uint64 \<times> 't TelemetryEvent) list \<Rightarrow>
   (uint64 \<times> 't TelemetryEvent) list" where
  "DispatchEvent eventid e dispatched = dispatched @ [(eventid, e)]"







definition handleSysBind ::
  "(Sample \<Rightarrow> 't option) \<Rightarrow> uint64 \<Rightarrow> Sample \<Rightarrow>
   (uint64 \<times> 't TelemetryEvent) list \<Rightarrow> (uint64 \<times> 't TelemetryEvent) list" where
  "handleSysBind InitWithSample eventid sample dispatched =
     (case InitWithSample sample of
        None \<Rightarrow> dispatched
      | Some t \<Rightarrow>
          DispatchEvent eventid
            (NetworkBindAttemptTelemetryEvent t
               (NetworkAttempt_initWithSample sample zero_NetworkAttempt)
               (NetworkAddress_initWithSample sample zero_NetworkAddress))
            dispatched)"


definition handleSysConnect ::
  "(Sample \<Rightarrow> 't option) \<Rightarrow> uint64 \<Rightarrow> Sample \<Rightarrow>
   (uint64 \<times> 't TelemetryEvent) list \<Rightarrow> (uint64 \<times> 't TelemetryEvent) list" where
  "handleSysConnect InitWithSample eventid sample dispatched =
     (case InitWithSample sample of
        None \<Rightarrow> dispatched
      | Some t \<Rightarrow>
          DispatchEvent eventid
            (NetworkConnectAttemptTelemetryEvent t
               (NetworkAttempt_initWithSample sample zero_NetworkAttempt)
               (NetworkAddress_initWithSample sample zero_NetworkAddress))
            dispatched)"






definition handleSysSendto ::
  "(Sample \<Rightarrow> 't option) \<Rightarrow> uint64 \<Rightarrow> Sample \<Rightarrow>
   (uint64 \<times> 't TelemetryEvent) list \<Rightarrow> (uint64 \<times> 't TelemetryEvent) list" where
  "handleSysSendto InitWithSample eventid sample dispatched =
     (case InitWithSample sample of
        None \<Rightarrow> dispatched
      | Some t \<Rightarrow>
          DispatchEvent eventid
            (NetworkSendtoAttemptTelemetryEvent t
               (NetworkAttempt_initWithSample sample zero_NetworkAttempt)
               (NetworkAddress_initWithSample sample zero_NetworkAddress))
            dispatched)"



section \<open>Observations on the call log\<close>

text \<open>
  A concrete set of collaborators for the worked examples: a kernel of major version 4 on
  which every tracepoint and symbol exists and every registration succeeds. The tracing
  engine numbers its answers by the length of the log, so no two answers are equal.
\<close>

definition kernel4 :: env where
  "kernel4 = \<lparr>tracepoints = (\<lambda>_. True), kernel_symbols = (\<lambda>_. True), kernel_major = 4,
     tracepoint_reply = (\<lambda>h n. Inr (of_nat (length h) + 1)),
     group_reply = (\<lambda>h. Inr (int (length h) + 1)),
     kprobe_reply = (\<lambda>h s. Inr (of_nat (length h) + 1))\<rparr>"

text \<open>How many \<^verbatim>\<open>RegisterTracepoint\<close> and \<^verbatim>\<open>UnregisterEvent\<close> calls a log holds.\<close>

fun is_RegisterTracepoint :: "call \<Rightarrow> bool" where
  "is_RegisterTracepoint (RegisterTracepoint _ _ _ _ _) = True"
| "is_RegisterTracepoint _ = False"

fun is_UnregisterEvent :: "call \<Rightarrow> bool" where
  "is_UnregisterEvent (UnregisterEvent _) = True"
| "is_UnregisterEvent _ = False"

definition RegisterTracepoint_calls :: "call list \<Rightarrow> nat" where
  "RegisterTracepoint_calls cs = length (filter is_RegisterTracepoint cs)"

definition UnregisterEvent_calls :: "call list \<Rightarrow> nat" where
  "UnregisterEvent_calls cs = length (filter is_UnregisterEvent cs)"

text \<open>
  Shapes of acquire/release sequences, by the number \<open>d\<close> of references held before the
  sequence. \<open>matched d\<close>: no release without a reference, and none left at the end.
  \<open>episodes d\<close>: how often an acquire finds no reference held. \<open>held d\<close>: at least one
  reference is held until the very last operation, which releases it; a sequence is
  \<open>overlapping\<close> when that is so from its first acquire on.
\<close>

fun matched :: "nat \<Rightarrow> op list \<Rightarrow> bool" where
  "matched d [] = (d = 0)"
| "matched d (Acquire # xs) = matched (Suc d) xs"
| "matched d (Release # xs) = (0 < d \<and> matched (d - 1) xs)"

fun episodes :: "nat \<Rightarrow> op list \<Rightarrow> nat" where
  "episodes d [] = 0"
| "episodes d (Acquire # xs) = (if d = 0 then 1 else 0) + episodes (Suc d) xs"
| "episodes d (Release # xs) = episodes (d - 1) xs"

fun held :: "nat \<Rightarrow> op list \<Rightarrow> bool" where
  "held d [] = False"
| "held d (Acquire # xs) = held (Suc d) xs"
| "held d (Release # xs) = (if d \<le> 1 then d = 1 \<and> xs = [] else held (d - 1) xs)"

definition overlapping :: "op list \<Rightarrow> bool" where
  "overlapping ops = (case ops of Acquire # xs \<Rightarrow> held 1 xs | _ \<Rightarrow> False)"

text \<open>
  Reading a log as a protocol of the global dummy probe. The state is the id of the dummy
  event that is registered and not yet unregistered, and whether the log respected the
  protocol so far: a successful registration of the dummy handler only while nothing is
  registered, an unregistration only of the id that is. Failed registrations and all other
  calls do not count.
\<close>

fun track :: "uint64 option \<times> bool \<Rightarrow> call \<Rightarrow> uint64 option \<times> bool" where
  "track (live, ok) (RegisterTracepoint n fn g f r) =
     (case r of
        Inr i \<Rightarrow> if fn = fn_handleDummySysEnter then (Some i, ok \<and> live = None) else (live, ok)
      | Inl _ \<Rightarrow> (live, ok))"
| "track (live, ok) (UnregisterEvent i) = (None, ok \<and> live = Some i)"
| "track (live, ok) _ = (live, ok)"

definition registered :: "call list \<Rightarrow> uint64 option" where
  "registered cs = fst (foldl track (None, True) cs)"

definition well_paired :: "call list \<Rightarrow> bool" where
  "well_paired cs = snd (foldl track (None, True) cs)"

text \<open>
  The number of acquires of a run that reported success, and the number of releases.
\<close>

fun acquired :: "env \<Rightarrow> sensor \<Rightarrow> op list \<Rightarrow> nat" where
  "acquired e sn [] = 0"
| "acquired e sn (Acquire # xs) =
     (if fst (registerGlobalDummySyscallEvent e sn) then 1 else 0) + acquired e (step e sn Acquire) xs"
| "acquired e sn (Release # xs) = acquired e (step e sn Release) xs"

definition released :: "op list \<Rightarrow> nat" where
  "released ops = length (filter (\<lambda>x. x = Release) ops)"

text \<open>
  The invariant that links the count to the log: the dummy event is registered exactly
  while the count is positive, under the id the sensor remembers.
\<close>

definition refcount_inv :: "sensor \<Rightarrow> bool" where
  "refcount_inv sn =
     (well_paired (calls sn) \<and>
      registered (calls sn) =
        (if 0 < sint (dummySyscallEventCount sn) then Some (dummySyscallEventID sn) else None))"

section \<open>Observations on interleaved steps\<close>

text \<open>
  How many acquires of a schedule find the count at 0 when they add to it.
\<close>

fun fresh_acquires :: "env \<Rightarrow> sensor \<times> pc list \<Rightarrow> nat list \<Rightarrow> nat" where
  "fresh_acquires e st [] = 0"
| "fresh_acquires e st (i # sched) =
     (if i < length (snd st) \<and> snd st ! i = AcqAdd \<and> dummySyscallEventCount (fst st) = 0
      then 1 else 0) + fresh_acquires e (sched_step e st i) sched"

text \<open>
  A subscription is \<open>holding\<close> while its increment of the count is in effect, \<open>failing\<close>
  after a rejected registration, \<open>unregistering\<close> when it has taken the count to 0 and
  not yet called the engine. The invariant of a pool whose registrations all succeed: the
  count is the number of holding subscriptions and none is failing.
\<close>

fun holding :: "pc \<Rightarrow> bool" where
  "holding AcqAdd = False"
| "holding AcqCall = True"
| "holding (AcqStore _) = True"
| "holding (AcqLog _) = True"
| "holding AcqRollback = True"
| "holding Holding = True"
| "holding (RelAdd _) = True"
| "holding (RelCall _) = False"
| "holding Done = False"

fun failing :: "pc \<Rightarrow> bool" where
  "failing (AcqLog _) = True"
| "failing AcqRollback = True"
| "failing _ = False"

fun unregistering :: "pc \<Rightarrow> bool" where
  "unregistering (RelCall _) = True"
| "unregistering _ = False"

definition holders :: "pc list \<Rightarrow> nat" where
  "holders ts = length (filter holding ts)"

definition registering :: "pc list \<Rightarrow> nat" where
  "registering ts = length (filter (\<lambda>p. p = AcqCall) ts)"

definition unregisterings :: "pc list \<Rightarrow> nat" where
  "unregisterings ts = length (filter unregistering ts)"

definition pool_inv :: "sensor \<times> pc list \<Rightarrow> bool" where
  "pool_inv st =
     (dummySyscallEventCount (fst st) = of_nat (holders (snd st)) \<and>
      (\<forall>p \<in> set (snd st). \<not> failing p) \<and> length (snd st) < 2^64)"

section \<open>Observations on registration calls\<close>

text \<open>
  Further collaborators for the worked examples: a kernel of major version 2, an engine
  that rejects every kprobe, a kernel without the raw syscall tracepoint, and a kernel
  without the newer syscall entry symbol.
\<close>

definition kernel2 :: env where
  "kernel2 = \<lparr>tracepoints = (\<lambda>_. True), kernel_symbols = (\<lambda>_. True), kernel_major = 2,
     tracepoint_reply = (\<lambda>h n. Inr (of_nat (length h) + 1)),
     group_reply = (\<lambda>h. Inr (int (length h) + 1)),
     kprobe_reply = (\<lambda>h s. Inr (of_nat (length h) + 1))\<rparr>"


definition raw_missing :: "env \<Rightarrow> env" where
  "raw_missing e = e\<lparr>tracepoints := (\<lambda>n. n \<noteq> ''raw_syscalls/sys_enter'')\<rparr>"

definition new_symbol_missing :: "env \<Rightarrow> env" where
  "new_symbol_missing e = e\<lparr>kernel_symbols := (\<lambda>n. n \<noteq> ''syscall_trace_enter_phase1'')\<rparr>"

text \<open>The tracepoint existence queries of a log, and its kprobe requests.\<close>

fun is_DoesTracepointExist :: "call \<Rightarrow> bool" where
  "is_DoesTracepointExist (DoesTracepointExist _) = True"
| "is_DoesTracepointExist _ = False"

definition tracepoint_queries :: "call list \<Rightarrow> call list" where
  "tracepoint_queries cs = filter is_DoesTracepointExist cs"

fun kprobe_request :: "call \<Rightarrow> (string \<times> bool \<times> string) option" where
  "kprobe_request (RegisterKprobe symbol onReturn fetchargs fn g filt flag r) =
     Some (symbol, onReturn, fetchargs)"
| "kprobe_request _ = None"

definition kprobe_requests :: "call list \<Rightarrow> (string \<times> bool \<times> string) list" where
  "kprobe_requests cs = List.map_filter kprobe_request cs"

section \<open>Observations on decoded events\<close>









text \<open>
  A bind sample as the kprobe on \<^verbatim>\<open>sys_bind\<close> delivers it for an IPv4 socket address:
  the fetch arguments read every field from the same bytes, so the fields of the other
  families are present too, with whatever those bytes spell.
\<close>

definition bind_sample :: Sample where
  "bind_sample =
     [''fd'' \<mapsto> UnsignedInt64 3,
      ''sa_family'' \<mapsto> UnsignedInt16 2,
      ''sin_port'' \<mapsto> UnsignedInt16 80,
      ''sin_addr'' \<mapsto> UnsignedInt32 0x7F000001,
      ''sun_path'' \<mapsto> String ''P'',
      ''sin6_port'' \<mapsto> UnsignedInt16 80,
      ''sin6_addr_high'' \<mapsto> UnsignedInt64 5,
      ''sin6_addr_low'' \<mapsto> UnsignedInt64 9]"

section \<open>Observations on event ids\<close>

text \<open>
  The ids that the engine handed out for dummy tracepoints, the ids it handed out for
  kprobes, and the ids that were passed to \<^verbatim>\<open>UnregisterEvent\<close>, each in the order of
  the log.
\<close>

fun dummy_id :: "call \<Rightarrow> uint64 option" where
  "dummy_id (RegisterTracepoint n fn g f r) =
     (case r of Inr i \<Rightarrow> if fn = fn_handleDummySysEnter then Some i else None | Inl _ \<Rightarrow> None)"
| "dummy_id _ = None"

fun probe_id :: "call \<Rightarrow> uint64 option" where
  "probe_id (RegisterKprobe symbol onReturn fetchargs fn g filt flag r) =
     (case r of Inr i \<Rightarrow> Some i | Inl _ \<Rightarrow> None)"
| "probe_id _ = None"

fun unregistered_id :: "call \<Rightarrow> uint64 option" where
  "unregistered_id (UnregisterEvent i) = Some i"
| "unregistered_id _ = None"

definition dummy_ids :: "call list \<Rightarrow> uint64 list" where
  "dummy_ids cs = List.map_filter dummy_id cs"

definition probe_ids :: "call list \<Rightarrow> uint64 list" where
  "probe_ids cs = List.map_filter probe_id cs"

definition unregistered_ids :: "call list \<Rightarrow> uint64 list" where
  "unregistered_ids cs = List.map_filter unregistered_id cs"

text \<open>
  The invariant of the local strategy: only kprobe ids have been unregistered, and every
  event sink of every subscription is a kprobe's and has no unregister hook.
\<close>

definition local_inv :: "world \<Rightarrow> bool" where
  "local_inv w =
     (set (unregistered_ids (calls (fst w))) \<subseteq> set (probe_ids (calls (fst w))) \<and>
      (\<forall>i. \<forall>es \<in> set (eventSinks (snd w i)).
         unregister es = None \<and> eventID es \<in> set (probe_ids (calls (fst w)))))"

section \<open>The reference count of the global dummy probe\<close>

subsection \<open>One acquire, one release\<close>

lemma acquire_nonzero:
  "dummySyscallEventCount sn \<noteq> 0 \<Longrightarrow>
   registerGlobalDummySyscallEvent e sn =
     (True, sn\<lparr>dummySyscallEventCount := dummySyscallEventCount sn + 1\<rparr>)"
  by (simp add: registerGlobalDummySyscallEvent_def atomic_AddInt64_def Let_def)

lemma acquire_zero_ok:
  "dummySyscallEventCount sn = 0 \<Longrightarrow> tracepoint_reply e (calls sn) (syscallEnterName sn) = Inr i \<Longrightarrow>
   registerGlobalDummySyscallEvent e sn =
     (True, sn\<lparr>dummySyscallEventCount := 1,
                calls := calls sn @ [RegisterTracepoint (syscallEnterName sn) fn_handleDummySysEnter
                           (ContainerCache_EventGroupID sn) dummyFilter (Inr i)],
                dummySyscallEventID := i\<rparr>)"
  by (simp add: registerGlobalDummySyscallEvent_def atomic_AddInt64_def Let_def)

lemma acquire_zero_fail:
  "dummySyscallEventCount sn = 0 \<Longrightarrow> tracepoint_reply e (calls sn) (syscallEnterName sn) = Inl er \<Longrightarrow>
   registerGlobalDummySyscallEvent e sn =
     (False, sn\<lparr>calls := calls sn @ [RegisterTracepoint (syscallEnterName sn) fn_handleDummySysEnter
                           (ContainerCache_EventGroupID sn) dummyFilter (Inl er),
                 LogStatus (''Could not register dummy syscall event '' @ syscallEnterName sn @ '': '' @ er)]\<rparr>)"
  by (simp add: registerGlobalDummySyscallEvent_def atomic_AddInt64_def Let_def logStatus_def)

lemma release_one:
  "dummySyscallEventCount sn = 1 \<Longrightarrow>
   unregister_closure sn = sn\<lparr>dummySyscallEventCount := 0,
       calls := calls sn @ [UnregisterEvent (dummySyscallEventID sn)]\<rparr>"
  by (simp add: unregister_closure_def atomic_AddInt64_def Let_def)

lemma release_other:
  "dummySyscallEventCount sn \<noteq> 1 \<Longrightarrow>
   unregister_closure sn = sn\<lparr>dummySyscallEventCount := dummySyscallEventCount sn - 1\<rparr>"
  by (simp add: unregister_closure_def atomic_AddInt64_def Let_def)

subsection \<open>Facts about 64-bit words\<close>

lemma word64_of_nat_eq_0: "d < 2^64 \<Longrightarrow> ((of_nat d :: 64 word) = 0) = (d = 0)"
  using word_of_nat_eq_iff [where 'a=64, of d 0] by (simp add: take_bit_nat_eq_self)

lemma word64_of_nat_eq_1: "d < 2^64 \<Longrightarrow> ((of_nat d :: 64 word) = 1) = (d = 1)"
  using word_of_nat_eq_iff [where 'a=64, of d 1] by (simp add: take_bit_nat_eq_self)

lemma sint64_inc: "sint (c::64 word) < 2^63 - 1 \<Longrightarrow> sint (c + 1) = sint c + 1"
proof -
  assume a: "sint c < 2^63 - 1"
  have lo: "- (2^63) \<le> sint c" using sint_ge [of c] by simp
  have "sint (c + 1) = signed_take_bit 63 (sint c + 1)"
    by (simp add: sint_word_add)
  also have "\<dots> = sint c + 1"
    using a lo by (intro signed_take_bit_int_eq_self) simp_all
  finally show ?thesis .
qed

lemma sint64_dec: "- (2^63) < sint (c::64 word) \<Longrightarrow> sint (c - 1) = sint c - 1"
proof -
  assume a: "- (2^63) < sint c"
  have hi: "sint c < 2^63" using sint_lt [of c] by simp
  have "sint (c - 1) = signed_take_bit 63 (sint c - 1)"
    by (simp add: sint_word_ariths)
  also have "\<dots> = sint c - 1"
    using a hi by (intro signed_take_bit_int_eq_self) simp_all
  finally show ?thesis .
qed

lemma sint64_eq_1: "(sint (c::64 word) = 1) = (c = 1)"
proof
  assume "sint c = 1"
  then have "word_of_int (sint c) = (word_of_int 1 :: 64 word)" by simp
  then show "c = 1" by simp
next
  assume "c = 1" then show "sint c = 1" by simp
qed

lemma sint64_eq_0: "(sint (c::64 word) = 0) = (c = 0)"
proof
  assume "sint c = 0"
  then have "word_of_int (sint c) = (word_of_int 0 :: 64 word)" by simp
  then show "c = 0" by simp
next
  assume "c = 0" then show "sint c = 0" by simp
qed

subsection \<open>Matched sequences\<close>

lemma run_matched:
  assumes ok: "\<forall>h n. \<not> isl (tracepoint_reply e h n)"
  shows "dummySyscallEventCount sn = of_nat d \<Longrightarrow> d + length ops < 2^64 \<Longrightarrow> matched d ops \<Longrightarrow>
     RegisterTracepoint_calls (calls (run e sn ops)) =
       RegisterTracepoint_calls (calls sn) + episodes d ops \<and>
     UnregisterEvent_calls (calls (run e sn ops)) =
       UnregisterEvent_calls (calls sn) + episodes d ops + (if 0 < d then 1 else 0) \<and>
     dummySyscallEventCount (run e sn ops) = 0"
proof (induction ops arbitrary: sn d)
  case Nil
  then show ?case by simp
next
  case (Cons x xs)
  show ?case
  proof (cases x)
    case Acquire
    show ?thesis
    proof (cases "d = 0")
      case True
      obtain i where i: "tracepoint_reply e (calls sn) (syscallEnterName sn) = Inr i"
        using ok by (metis isl_def sum.exhaust_sel sum.collapse(2))
      let ?s = "snd (registerGlobalDummySyscallEvent e sn)"
      have s: "?s = sn\<lparr>dummySyscallEventCount := 1,
                calls := calls sn @ [RegisterTracepoint (syscallEnterName sn) fn_handleDummySysEnter
                           (ContainerCache_EventGroupID sn) dummyFilter (Inr i)],
                dummySyscallEventID := i\<rparr>"
        using Cons.prems True i by (simp add: acquire_zero_ok)
      have "dummySyscallEventCount ?s = of_nat (Suc 0)" by (simp add: s)
      moreover have "Suc 0 + length xs < 2^64" using Cons.prems True by simp
      moreover have "matched (Suc 0) xs" using Cons.prems True Acquire by simp
      ultimately have IH: "RegisterTracepoint_calls (calls (run e ?s xs)) =
           RegisterTracepoint_calls (calls ?s) + episodes (Suc 0) xs \<and>
         UnregisterEvent_calls (calls (run e ?s xs)) =
           UnregisterEvent_calls (calls ?s) + episodes (Suc 0) xs + (if 0 < Suc 0 then 1 else 0) \<and>
         dummySyscallEventCount (run e ?s xs) = 0"
        by (rule Cons.IH)
      show ?thesis using IH True Acquire
        by (simp add: s RegisterTracepoint_calls_def UnregisterEvent_calls_def)
    next
      case False
      let ?s = "snd (registerGlobalDummySyscallEvent e sn)"
      have nz: "dummySyscallEventCount sn \<noteq> 0"
        using Cons.prems False by (simp add: word64_of_nat_eq_0)
      have s: "?s = sn\<lparr>dummySyscallEventCount := dummySyscallEventCount sn + 1\<rparr>"
        using nz by (simp add: acquire_nonzero)
      have "dummySyscallEventCount ?s = of_nat (Suc d)" using Cons.prems by (simp add: s)
      moreover have "Suc d + length xs < 2^64" using Cons.prems by simp
      moreover have "matched (Suc d) xs" using Cons.prems Acquire by simp
      ultimately have IH: "RegisterTracepoint_calls (calls (run e ?s xs)) =
           RegisterTracepoint_calls (calls ?s) + episodes (Suc d) xs \<and>
         UnregisterEvent_calls (calls (run e ?s xs)) =
           UnregisterEvent_calls (calls ?s) + episodes (Suc d) xs + (if 0 < Suc d then 1 else 0) \<and>
         dummySyscallEventCount (run e ?s xs) = 0"
        by (rule Cons.IH)
      show ?thesis using IH False Acquire by (simp add: s)
    qed
  next
    case Release
    have dpos: "0 < d" and m: "matched (d - 1) xs" using Cons.prems Release by simp_all
    show ?thesis
    proof (cases "d = 1")
      case True
      let ?s = "unregister_closure sn"
      have s: "?s = sn\<lparr>dummySyscallEventCount := 0,
                 calls := calls sn @ [UnregisterEvent (dummySyscallEventID sn)]\<rparr>"
        using Cons.prems True by (simp add: release_one)
      have "dummySyscallEventCount ?s = of_nat 0" by (simp add: s)
      moreover have "0 + length xs < 2^64" using Cons.prems by simp
      moreover have "matched 0 xs" using m True by simp
      ultimately have IH: "RegisterTracepoint_calls (calls (run e ?s xs)) =
           RegisterTracepoint_calls (calls ?s) + episodes 0 xs \<and>
         UnregisterEvent_calls (calls (run e ?s xs)) =
           UnregisterEvent_calls (calls ?s) + episodes 0 xs + (if (0::nat) < 0 then 1 else 0) \<and>
         dummySyscallEventCount (run e ?s xs) = 0"
        by (rule Cons.IH)
      show ?thesis using IH True Release
        by (simp add: s RegisterTracepoint_calls_def UnregisterEvent_calls_def)
    next
      case False
      let ?s = "unregister_closure sn"
      have n1: "dummySyscallEventCount sn \<noteq> 1"
        using Cons.prems False by (simp add: word64_of_nat_eq_1)
      have s: "?s = sn\<lparr>dummySyscallEventCount := dummySyscallEventCount sn - 1\<rparr>"
        using n1 by (simp add: release_other)
      have "dummySyscallEventCount ?s = of_nat (d - 1)" using Cons.prems dpos by (simp add: s)
      moreover have "(d - 1) + length xs < 2^64" using Cons.prems by simp
      ultimately have IH: "RegisterTracepoint_calls (calls (run e ?s xs)) =
           RegisterTracepoint_calls (calls ?s) + episodes (d - 1) xs \<and>
         UnregisterEvent_calls (calls (run e ?s xs)) =
           UnregisterEvent_calls (calls ?s) + episodes (d - 1) xs + (if 0 < d - 1 then 1 else 0) \<and>
         dummySyscallEventCount (run e ?s xs) = 0"
        using m by (rule Cons.IH)
      have "0 < d - 1" using dpos False by simp
      then show ?thesis using IH dpos Release by (simp add: s)
    qed
  qed
qed

lemma held_matched: "held d xs \<Longrightarrow> 0 < d \<Longrightarrow> matched d xs \<and> episodes d xs = 0"
proof (induction d xs rule: held.induct)
  case (1 d)
  then show ?case by simp
next
  case (2 d xs)
  then show ?case by simp
next
  case (3 d xs)
  then show ?case by (cases "d \<le> 1") auto
qed

lemma overlapping_matched: "overlapping ops \<Longrightarrow> matched 0 ops \<and> episodes 0 ops = 1"
  by (auto simp: overlapping_def held_matched split: list.splits op.splits)

subsection \<open>The count and the log along arbitrary sequences\<close>

lemma registered_snoc:
  "registered (cs @ [c]) = fst (track (registered cs, well_paired cs) c)"
  by (simp add: registered_def well_paired_def)

lemma well_paired_snoc:
  "well_paired (cs @ [c]) = snd (track (registered cs, well_paired cs) c)"
  by (simp add: registered_def well_paired_def)

lemma registered_snoc2:
  "registered (cs @ [a, b]) = fst (track (track (registered cs, well_paired cs) a) b)"
  by (simp add: registered_def well_paired_def)

lemma well_paired_snoc2:
  "well_paired (cs @ [a, b]) = snd (track (track (registered cs, well_paired cs) a) b)"
  by (simp add: registered_def well_paired_def)

lemma step_count:
  assumes "\<bar>sint (dummySyscallEventCount sn)\<bar> + 1 < 2^63"
  shows "sint (dummySyscallEventCount (step e sn x)) =
           sint (dummySyscallEventCount sn) +
           (case x of Acquire \<Rightarrow> if fst (registerGlobalDummySyscallEvent e sn) then 1 else 0
                    | Release \<Rightarrow> - 1)"
proof (cases x)
  case Acquire
  show ?thesis
  proof (cases "dummySyscallEventCount sn = 0")
    case True
    show ?thesis
    proof (cases "tracepoint_reply e (calls sn) (syscallEnterName sn)")
      case (Inl er)
      then show ?thesis using True Acquire by (simp add: acquire_zero_fail)
    next
      case (Inr i)
      then show ?thesis using True Acquire by (simp add: acquire_zero_ok)
    qed
  next
    case False
    have "sint (dummySyscallEventCount sn) < 2^63 - 1" using assms by simp
    then show ?thesis using False Acquire by (simp add: acquire_nonzero sint64_inc)
  qed
next
  case Release
  have lo: "- (2^63) < sint (dummySyscallEventCount sn)" using assms by simp
  show ?thesis
  proof (cases "dummySyscallEventCount sn = 1")
    case True
    then show ?thesis using Release by (simp add: release_one)
  next
    case False
    then show ?thesis using Release lo by (simp add: release_other sint64_dec)
  qed
qed

lemma run_count:
  "\<bar>sint (dummySyscallEventCount sn)\<bar> + int (length ops) < 2^63 \<Longrightarrow>
   sint (dummySyscallEventCount (run e sn ops)) =
     sint (dummySyscallEventCount sn) + int (acquired e sn ops) - int (released ops)"
proof (induction ops arbitrary: sn)
  case Nil
  then show ?case by (simp add: released_def)
next
  case (Cons x xs)
  have b: "\<bar>sint (dummySyscallEventCount sn)\<bar> + 1 < 2^63" using Cons.prems by simp
  note sc = step_count [OF b, of e x]
  have "\<bar>sint (dummySyscallEventCount (step e sn x))\<bar> + int (length xs) < 2^63"
    using Cons.prems sc by (cases x) (simp_all split: if_splits)
  from Cons.IH [OF this] show ?case
    using sc by (cases x) (simp_all add: released_def)
qed

lemma step_inv:
  assumes inv: "refcount_inv sn" and b: "\<bar>sint (dummySyscallEventCount sn)\<bar> + 1 < 2^63"
  shows "refcount_inv (step e sn x)"
proof (cases x)
  case Acquire
  show ?thesis
  proof (cases "dummySyscallEventCount sn = 0")
    case True
    show ?thesis
    proof (cases "tracepoint_reply e (calls sn) (syscallEnterName sn)")
      case (Inl er)
      then show ?thesis using True Acquire inv
        by (simp add: acquire_zero_fail refcount_inv_def registered_snoc2 well_paired_snoc2)
    next
      case (Inr i)
      then show ?thesis using True Acquire inv
        by (simp add: acquire_zero_ok refcount_inv_def registered_snoc well_paired_snoc)
    qed
  next
    case False
    have "sint (dummySyscallEventCount sn) < 2^63 - 1" using b by simp
    moreover have "sint (dummySyscallEventCount sn) \<noteq> 0" using False by (simp add: sint64_eq_0)
    ultimately show ?thesis using False Acquire inv
      by (auto simp add: acquire_nonzero sint64_inc refcount_inv_def)
  qed
next
  case Release
  have lo: "- (2^63) < sint (dummySyscallEventCount sn)" using b by simp
  show ?thesis
  proof (cases "dummySyscallEventCount sn = 1")
    case True
    then show ?thesis using Release inv
      by (simp add: release_one refcount_inv_def registered_snoc well_paired_snoc)
  next
    case False
    then have "sint (dummySyscallEventCount sn) \<noteq> 1" by (simp add: sint64_eq_1)
    then show ?thesis using False Release lo inv
      by (auto simp add: release_other sint64_dec refcount_inv_def)
  qed
qed

lemma run_inv:
  "refcount_inv sn \<Longrightarrow> \<bar>sint (dummySyscallEventCount sn)\<bar> + int (length ops) < 2^63 \<Longrightarrow>
   refcount_inv (run e sn ops)"
proof (induction ops arbitrary: sn)
  case Nil
  then show ?case by simp
next
  case (Cons x xs)
  have b: "\<bar>sint (dummySyscallEventCount sn)\<bar> + 1 < 2^63" using Cons.prems by simp
  note sc = step_count [OF b, of e x]
  have "\<bar>sint (dummySyscallEventCount (step e sn x))\<bar> + int (length xs) < 2^63"
    using Cons.prems sc by (cases x) (simp_all split: if_splits)
  moreover have "refcount_inv (step e sn x)" using Cons.prems(1) b by (rule step_inv)
  ultimately show ?case using Cons.IH by simp
qed

subsection \<open>Properties of the reference count\<close>

text \<open>
  Whole operations. Take any sequence of acquires and releases, each run without
  interruption, that starts with no reference held, never releases without a reference
  and ends with none, and let every engine registration succeed. Then the sequence makes
  one \<^verbatim>\<open>RegisterTracepoint\<close> call and one \<^verbatim>\<open>UnregisterEvent\<close> call for each time an
  acquire finds no reference held. When the holds overlap, so that a reference is held
  from the first acquire to the last release, that is exactly one call of each.
\<close>

theorem global_dummy_matched_acquire_release:
  assumes ok: "\<forall>h n. \<not> isl (tracepoint_reply e h n)"
    and zero: "dummySyscallEventCount sn = 0"
    and m: "matched 0 ops"
    and len: "length ops < 2^64"
  shows "RegisterTracepoint_calls (calls (run e sn ops)) =
           RegisterTracepoint_calls (calls sn) + episodes 0 ops \<and>
         UnregisterEvent_calls (calls (run e sn ops)) =
           UnregisterEvent_calls (calls sn) + episodes 0 ops \<and>
         dummySyscallEventCount (run e sn ops) = 0 \<and>
         (overlapping ops \<longrightarrow> episodes 0 ops = 1)"
proof -
  have "dummySyscallEventCount sn = of_nat 0" using zero by simp
  moreover have "0 + length ops < 2^64" using len by simp
  ultimately have "RegisterTracepoint_calls (calls (run e sn ops)) =
       RegisterTracepoint_calls (calls sn) + episodes 0 ops \<and>
     UnregisterEvent_calls (calls (run e sn ops)) =
       UnregisterEvent_calls (calls sn) + episodes 0 ops + (if (0::nat) < 0 then 1 else 0) \<and>
     dummySyscallEventCount (run e sn ops) = 0"
    using m by (rule run_matched [OF ok])
  then show ?thesis by (simp add: overlapping_matched)
qed

theorem global_dummy_matched_witness:
  "matched 0 [Acquire, Acquire, Release, Acquire, Release, Release] \<and>
   overlapping [Acquire, Acquire, Release, Acquire, Release, Release] \<and>
   RegisterTracepoint_calls
     (calls (run kernel4 (new_sensor 7) [Acquire, Acquire, Release, Acquire, Release, Release])) = 1 \<and>
   UnregisterEvent_calls
     (calls (run kernel4 (new_sensor 7) [Acquire, Acquire, Release, Acquire, Release, Release])) = 1"
proof -
  have ok: "\<forall>h n. \<not> isl (tracepoint_reply kernel4 h n)" by (simp add: kernel4_def)
  have zero: "dummySyscallEventCount (new_sensor 7) = 0" by (simp add: new_sensor_def)
  have m: "matched 0 [Acquire, Acquire, Release, Acquire, Release, Release]" by simp
  have len: "length [Acquire, Acquire, Release, Acquire, Release, Release] < 2^64" by simp
  have ov: "overlapping [Acquire, Acquire, Release, Acquire, Release, Release]"
    by (simp add: overlapping_def)
  show ?thesis
    using global_dummy_matched_acquire_release [OF ok zero m len] ov m
    by (simp add: new_sensor_def RegisterTracepoint_calls_def UnregisterEvent_calls_def)
qed

text \<open>
  C2. Over any sequence of acquires and releases, also one with more releases than
  acquires, and whatever the engine answers, every \<^verbatim>\<open>UnregisterEvent\<close> call unregisters
  the id of a successful registration that no earlier call has unregistered: the extra
  releases cause no further unregistration. (The sequence is shorter than \<open>2^63\<close>, so the
  64-bit count does not wrap.)
\<close>

theorem over_release_no_second_unregister:
  assumes len: "length ops < 2^63"
    and zero: "dummySyscallEventCount sn = 0"
    and wp: "well_paired (calls sn)"
    and nr: "registered (calls sn) = None"
  shows "well_paired (calls (run e sn ops)) \<and>
         registered (calls (run e sn ops)) =
           (if 0 < sint (dummySyscallEventCount (run e sn ops))
            then Some (dummySyscallEventID (run e sn ops)) else None)"
proof -
  have "refcount_inv sn" using zero wp nr by (simp add: refcount_inv_def)
  moreover have "\<bar>sint (dummySyscallEventCount sn)\<bar> + int (length ops) < 2^63"
    using len zero by simp
  ultimately have "refcount_inv (run e sn ops)" by (rule run_inv)
  then show ?thesis by (simp add: refcount_inv_def)
qed

theorem over_release_witness:
  "released [Acquire, Release, Release, Release, Acquire, Acquire, Release] = 4 \<and>
   well_paired (calls (run kernel4 (new_sensor 7)
      [Acquire, Release, Release, Release, Acquire, Acquire, Release])) \<and>
   UnregisterEvent_calls (calls (run kernel4 (new_sensor 7)
      [Acquire, Release, Release, Release, Acquire, Acquire, Release])) = 1 \<and>
   sint (dummySyscallEventCount (run kernel4 (new_sensor 7)
      [Acquire, Release, Release, Release, Acquire, Acquire, Release])) = - 1"
proof -
  have len: "length [Acquire, Release, Release, Release, Acquire, Acquire, Release] < 2^63"
    by simp
  have zero: "dummySyscallEventCount (new_sensor 7) = 0" by (simp add: new_sensor_def)
  have wp: "well_paired (calls (new_sensor 7))" by (simp add: new_sensor_def well_paired_def)
  have nr: "registered (calls (new_sensor 7)) = None"
    by (simp add: new_sensor_def registered_def)
  have ev: "calls (run kernel4 (new_sensor 7)
      [Acquire, Release, Release, Release, Acquire, Acquire, Release]) =
      [RegisterTracepoint [] fn_handleDummySysEnter 7 dummyFilter (Inr 1), UnregisterEvent 1] \<and>
     dummySyscallEventCount (run kernel4 (new_sensor 7)
      [Acquire, Release, Release, Release, Acquire, Acquire, Release]) = - 1"
    by (simp add: kernel4_def new_sensor_def registerGlobalDummySyscallEvent_def
      unregister_closure_def atomic_AddInt64_def Let_def)
  show ?thesis
    using over_release_no_second_unregister [OF len zero wp nr, of kernel4] ev
    by (simp add: released_def UnregisterEvent_calls_def)
qed

text \<open>A release with no reference held takes the count to \<open>-1\<close>.\<close>

theorem refcount_negative_counterexample:
  "sint (dummySyscallEventCount (run kernel4 (new_sensor 7) [Acquire, Release, Release])) = - 1"
  by (simp add: kernel4_def new_sensor_def registerGlobalDummySyscallEvent_def
      unregister_closure_def atomic_AddInt64_def Let_def)

text \<open>
  C3 (as amended). After any sequence of fewer than \<open>2^63\<close> operations the count is the
  number of acquires that reported success minus the number of releases; it is
  non-negative as long as the releases do not outnumber those acquires. An acquire at a
  count other than 0 and a release at a count other than 1 change the count and nothing
  else. An acquire at 0 asks the engine to register the dummy tracepoint (and on failure
  reports it and leaves the count at 0); a release at 1 unregisters the remembered id.
\<close>

theorem refcount_value_and_side_effects:
  assumes len: "length ops < 2^63"
    and zero: "dummySyscallEventCount sn = 0"
  shows "sint (dummySyscallEventCount (run e sn ops)) =
           int (acquired e sn ops) - int (released ops) \<and>
         (dummySyscallEventCount s \<noteq> 0 \<longrightarrow>
            registerGlobalDummySyscallEvent e s =
              (True, s\<lparr>dummySyscallEventCount := dummySyscallEventCount s + 1\<rparr>)) \<and>
         (dummySyscallEventCount s \<noteq> 1 \<longrightarrow>
            unregister_closure s =
              s\<lparr>dummySyscallEventCount := dummySyscallEventCount s - 1\<rparr>) \<and>
         (dummySyscallEventCount s = 0 \<longrightarrow>
            registerGlobalDummySyscallEvent e s =
              (case tracepoint_reply e (calls s) (syscallEnterName s) of
                 Inr i \<Rightarrow>
                   (True, s\<lparr>dummySyscallEventCount := 1,
                      calls := calls s @
                        [RegisterTracepoint (syscallEnterName s) fn_handleDummySysEnter
                           (ContainerCache_EventGroupID s) dummyFilter (Inr i)],
                      dummySyscallEventID := i\<rparr>)
               | Inl er \<Rightarrow>
                   (False, s\<lparr>calls := calls s @
                        [RegisterTracepoint (syscallEnterName s) fn_handleDummySysEnter
                           (ContainerCache_EventGroupID s) dummyFilter (Inl er),
                         LogStatus (''Could not register dummy syscall event '' @
                           syscallEnterName s @ '': '' @ er)]\<rparr>))) \<and>
         (dummySyscallEventCount s = 1 \<longrightarrow>
            unregister_closure s =
              s\<lparr>dummySyscallEventCount := 0,
                calls := calls s @ [UnregisterEvent (dummySyscallEventID s)]\<rparr>)"
proof -
  have "\<bar>sint (dummySyscallEventCount sn)\<bar> + int (length ops) < 2^63"
    using len zero by simp
  from run_count [OF this, of e] have "sint (dummySyscallEventCount (run e sn ops)) =
           int (acquired e sn ops) - int (released ops)"
    using zero by simp
  moreover have "dummySyscallEventCount s = 0 \<longrightarrow>
            registerGlobalDummySyscallEvent e s =
              (case tracepoint_reply e (calls s) (syscallEnterName s) of
                 Inr i \<Rightarrow>
                   (True, s\<lparr>dummySyscallEventCount := 1,
                      calls := calls s @
                        [RegisterTracepoint (syscallEnterName s) fn_handleDummySysEnter
                           (ContainerCache_EventGroupID s) dummyFilter (Inr i)],
                      dummySyscallEventID := i\<rparr>)
               | Inl er \<Rightarrow>
                   (False, s\<lparr>calls := calls s @
                        [RegisterTracepoint (syscallEnterName s) fn_handleDummySysEnter
                           (ContainerCache_EventGroupID s) dummyFilter (Inl er),
                         LogStatus (''Could not register dummy syscall event '' @
                           syscallEnterName s @ '': '' @ er)]\<rparr>))"
    by (cases "tracepoint_reply e (calls s) (syscallEnterName s)")
       (simp_all add: acquire_zero_ok acquire_zero_fail)
  ultimately show ?thesis
    by (simp add: acquire_nonzero release_other release_one)
qed

theorem refcount_value_witness:
  "acquired kernel4 (new_sensor 7) [Acquire, Acquire, Release] = 2 \<and>
   released [Acquire, Acquire, Release] = 1 \<and>
   sint (dummySyscallEventCount (run kernel4 (new_sensor 7) [Acquire, Acquire, Release])) = 1 \<and>
   calls (unregister_closure (run kernel4 (new_sensor 7) [Acquire, Acquire, Release])) =
     [RegisterTracepoint [] fn_handleDummySysEnter 7 dummyFilter (Inr 1), UnregisterEvent 1]"
proof -
  let ?ops = "[Acquire, Acquire, Release]"
  let ?s = "run kernel4 (new_sensor 7) ?ops"
  have len: "length ?ops < 2^63" by simp
  have zero: "dummySyscallEventCount (new_sensor 7) = 0" by (simp add: new_sensor_def)
  have a: "acquired kernel4 (new_sensor 7) ?ops = 2"
    by (simp add: kernel4_def new_sensor_def registerGlobalDummySyscallEvent_def
      unregister_closure_def atomic_AddInt64_def Let_def)
  have r: "released ?ops = 1" by (simp add: released_def)
  have c: "dummySyscallEventCount ?s = 1 \<and> dummySyscallEventID ?s = 1 \<and>
      calls ?s = [RegisterTracepoint [] fn_handleDummySysEnter 7 dummyFilter (Inr 1)]"
    by (simp add: kernel4_def new_sensor_def registerGlobalDummySyscallEvent_def
      unregister_closure_def atomic_AddInt64_def Let_def)
  note t = refcount_value_and_side_effects [OF len zero, of kernel4 ?s]
  have v: "sint (dummySyscallEventCount ?s) = 1"
    using t [THEN conjunct1] by (simp only: a r)
  have u: "unregister_closure ?s =
      ?s\<lparr>dummySyscallEventCount := 0,
          calls := calls ?s @ [UnregisterEvent (dummySyscallEventID ?s)]\<rparr>"
    using t [THEN conjunct2, THEN conjunct2, THEN conjunct2, THEN conjunct2] c by blast
  have "calls (unregister_closure ?s) = calls ?s @ [UnregisterEvent (dummySyscallEventID ?s)]"
    by (subst u) simp
  then have "calls (unregister_closure ?s) =
     [RegisterTracepoint [] fn_handleDummySysEnter 7 dummyFilter (Inr 1), UnregisterEvent 1]"
    by (simp only: c append.simps)
  then show ?thesis using a r v by blast
qed

section \<open>The reference count under interleaved steps\<close>

lemma filter_update_count:
  "i < length ts \<Longrightarrow>
   length (filter P (ts[i := x])) + (if P (ts ! i) then 1 else 0) =
   length (filter P ts) + (if P x then 1 else 0)"
proof (induction ts arbitrary: i)
  case Nil
  then show ?case by simp
next
  case (Cons t ts)
  then show ?case by (cases i) auto
qed

text \<open>
  Run without interruption, the steps of an acquire are \<^verbatim>\<open>registerGlobalDummySyscallEvent\<close>
  and the steps of a release are the unregister closure.
\<close>

lemma acquire_uninterrupted:
  "exec e (sn, [AcqAdd])
     (if dummySyscallEventCount sn \<noteq> 0 then [0]
      else if isl (tracepoint_reply e (calls sn) (syscallEnterName sn)) then [0, 0, 0, 0]
      else [0, 0, 0]) =
   (snd (registerGlobalDummySyscallEvent e sn),
    [if fst (registerGlobalDummySyscallEvent e sn) then Holding else Done])"
  by (cases "tracepoint_reply e (calls sn) (syscallEnterName sn)")
     (simp_all add: registerGlobalDummySyscallEvent_def atomic_AddInt64_def logStatus_def Let_def)

lemma release_uninterrupted:
  "exec e (sn, [Holding]) [0, 0, 0] = (unregister_closure sn, [Done])"
  by (simp add: unregister_closure_def atomic_AddInt64_def Let_def)

lemma pool_update:
  assumes "i < length ts"
  shows "holders (ts[i := x]) + (if holding (ts ! i) then 1 else 0) =
           holders ts + (if holding x then 1 else 0)"
    and "registering (ts[i := x]) + (if ts ! i = AcqCall then 1 else 0) =
           registering ts + (if x = AcqCall then 1 else 0)"
    and "unregisterings (ts[i := x]) + (if unregistering (ts ! i) then 1 else 0) =
           unregisterings ts + (if unregistering x then 1 else 0)"
  using assms filter_update_count [of i ts holding x]
    filter_update_count [of i ts "\<lambda>p. p = AcqCall" x]
    filter_update_count [of i ts unregistering x]
  by (simp_all add: holders_def registering_def unregisterings_def)

lemma not_failing_update:
  "\<forall>p \<in> set ts. \<not> failing p \<Longrightarrow> \<not> failing x \<Longrightarrow> \<forall>p \<in> set (ts[i := x]). \<not> failing p"
  using set_update_subset_insert [of ts i x] by auto

lemma holders_le: "holders ts \<le> length ts"
  by (simp add: holders_def)

lemma sched_step_inv:
  assumes ok: "\<forall>h n. \<not> isl (tracepoint_reply e h n)"
    and inv: "pool_inv (sn, ts)"
    and st: "sched_step e (sn, ts) i = (sn', ts')"
  shows "pool_inv (sn', ts') \<and>
     RegisterTracepoint_calls (calls sn') + registering ts' =
       RegisterTracepoint_calls (calls sn) + registering ts +
       (if i < length ts \<and> ts ! i = AcqAdd \<and> dummySyscallEventCount sn = 0 then 1 else 0) \<and>
     UnregisterEvent_calls (calls sn') + unregisterings ts' + (if 0 < holders ts' then 1 else 0) =
       UnregisterEvent_calls (calls sn) + unregisterings ts + (if 0 < holders ts then 1 else 0) +
       (if i < length ts \<and> ts ! i = AcqAdd \<and> dummySyscallEventCount sn = 0 then 1 else 0)"
proof (cases "i < length ts")
  case False
  then show ?thesis using inv st by auto
next
  case True
  have c: "dummySyscallEventCount sn = of_nat (holders ts)"
    and nf: "\<forall>p \<in> set ts. \<not> failing p" and len: "length ts < 2^64"
    using inv by (simp_all add: pool_inv_def)
  have hl: "holders ts < 2^64" using holders_le [of ts] len by simp
  have z: "(dummySyscallEventCount sn = 0) = (holders ts = 0)"
    using hl by (simp add: c word64_of_nat_eq_0)
  have o: "(dummySyscallEventCount sn = 1) = (holders ts = 1)"
    using hl by (simp add: c word64_of_nat_eq_1)
  have nfi: "\<not> failing (ts ! i)" using nf True by simp
  note up = pool_update [OF True]
  show ?thesis
  proof (cases "ts ! i")
    case AcqAdd
    show ?thesis
    proof (cases "holders ts = 0")
      case h0: True
      have s: "sn' = sn\<lparr>dummySyscallEventCount := 1\<rparr>" and t: "ts' = ts[i := AcqCall]"
        using st True AcqAdd h0 z by (auto simp: atomic_AddInt64_def Let_def)
      have "\<forall>p \<in> set ts'. \<not> failing p" unfolding t using nf by (rule not_failing_update) simp
      then show ?thesis
        using up(1) [of AcqCall] up(2) [of AcqCall] up(3) [of AcqCall] AcqAdd h0 z len True
        by (simp add: pool_inv_def s t)
    next
      case h1: False
      have s: "sn' = sn\<lparr>dummySyscallEventCount := dummySyscallEventCount sn + 1\<rparr>"
        and t: "ts' = ts[i := Holding]"
        using st True AcqAdd h1 z by (auto simp: atomic_AddInt64_def Let_def)
      have "\<forall>p \<in> set ts'. \<not> failing p" unfolding t using nf by (rule not_failing_update) simp
      then show ?thesis
        using up(1) [of Holding] up(2) [of Holding] up(3) [of Holding] AcqAdd h1 z len True c
        by (simp add: pool_inv_def s t)
    qed
  next
    case AcqCall
    obtain evID where r: "tracepoint_reply e (calls sn) (syscallEnterName sn) = Inr evID"
      using ok by (metis isl_def sum.exhaust_sel sum.collapse(2))
    have s: "sn' = sn\<lparr>calls := calls sn @
               [RegisterTracepoint (syscallEnterName sn) fn_handleDummySysEnter
                  (ContainerCache_EventGroupID sn) dummyFilter (Inr evID)]\<rparr>"
      and t: "ts' = ts[i := AcqStore evID]"
      using st True AcqCall r by (auto simp: Let_def)
    have "\<forall>p \<in> set ts'. \<not> failing p" unfolding t using nf by (rule not_failing_update) simp
    then show ?thesis
      using up(1) [of "AcqStore evID"] up(2) [of "AcqStore evID"] up(3) [of "AcqStore evID"]
        AcqCall len c
      by (simp add: pool_inv_def s t RegisterTracepoint_calls_def UnregisterEvent_calls_def)
  next
    case (AcqStore evID)
    have s: "sn' = sn\<lparr>dummySyscallEventID := evID\<rparr>" and t: "ts' = ts[i := Holding]"
      using st True AcqStore by auto
    have "\<forall>p \<in> set ts'. \<not> failing p" unfolding t using nf by (rule not_failing_update) simp
    then show ?thesis
      using up(1) [of Holding] up(2) [of Holding] up(3) [of Holding] AcqStore len c
      by (simp add: pool_inv_def s t)
  next
    case (AcqLog er)
    then show ?thesis using nfi by simp
  next
    case AcqRollback
    then show ?thesis using nfi by simp
  next
    case Holding
    have s: "sn' = sn" and t: "ts' = ts[i := RelAdd (dummySyscallEventID sn)]"
      using st True Holding by auto
    have "\<forall>p \<in> set ts'. \<not> failing p" unfolding t using nf by (rule not_failing_update) simp
    then show ?thesis
      using up(1) [of "RelAdd (dummySyscallEventID sn)"] up(2) [of "RelAdd (dummySyscallEventID sn)"]
        up(3) [of "RelAdd (dummySyscallEventID sn)"] Holding len c
      by (simp add: pool_inv_def s t)
  next
    case (RelAdd evID)
    show ?thesis
    proof (cases "holders ts = 1")
      case h1: True
      have s: "sn' = sn\<lparr>dummySyscallEventCount := 0\<rparr>" and t: "ts' = ts[i := RelCall evID]"
        using st True RelAdd h1 o by (auto simp: atomic_AddInt64_def Let_def)
      have "\<forall>p \<in> set ts'. \<not> failing p" unfolding t using nf by (rule not_failing_update) simp
      then show ?thesis
        using up(1) [of "RelCall evID"] up(2) [of "RelCall evID"] up(3) [of "RelCall evID"]
          RelAdd h1 len
        by (simp add: pool_inv_def s t)
    next
      case hn: False
      have s: "sn' = sn\<lparr>dummySyscallEventCount := dummySyscallEventCount sn - 1\<rparr>"
        and t: "ts' = ts[i := Done]"
        using st True RelAdd hn o by (auto simp: atomic_AddInt64_def Let_def)
      have "\<forall>p \<in> set ts'. \<not> failing p" unfolding t using nf by (rule not_failing_update) simp
      moreover have h: "holders ts = Suc (holders ts')"
        using up(1) [of Done] RelAdd by (simp add: t)
      ultimately show ?thesis
        using up(2) [of Done] up(3) [of Done] RelAdd hn len c
        by (simp add: pool_inv_def s t)
    qed
  next
    case (RelCall evID)
    have s: "sn' = sn\<lparr>calls := calls sn @ [UnregisterEvent evID]\<rparr>" and t: "ts' = ts[i := Done]"
      using st True RelCall by auto
    have "\<forall>p \<in> set ts'. \<not> failing p" unfolding t using nf by (rule not_failing_update) simp
    then show ?thesis
      using up(1) [of Done] up(2) [of Done] up(3) [of Done] RelCall len c
      by (simp add: pool_inv_def s t RegisterTracepoint_calls_def UnregisterEvent_calls_def)
  next
    case Done
    have s: "sn' = sn" and t: "ts' = ts"
      using st True Done by (auto simp: list_update_same_conv)
    show ?thesis using inv by (simp add: s t Done True)
  qed
qed

lemma exec_inv:
  assumes ok: "\<forall>h n. \<not> isl (tracepoint_reply e h n)"
  shows "pool_inv st \<Longrightarrow>
     pool_inv (exec e st sched) \<and>
     RegisterTracepoint_calls (calls (fst (exec e st sched))) + registering (snd (exec e st sched)) =
       RegisterTracepoint_calls (calls (fst st)) + registering (snd st) +
       fresh_acquires e st sched \<and>
     UnregisterEvent_calls (calls (fst (exec e st sched))) + unregisterings (snd (exec e st sched)) +
         (if 0 < holders (snd (exec e st sched)) then 1 else 0) =
       UnregisterEvent_calls (calls (fst st)) + unregisterings (snd st) +
         (if 0 < holders (snd st) then 1 else 0) + fresh_acquires e st sched"
proof (induction sched arbitrary: st)
  case Nil
  then show ?case by simp
next
  case (Cons i sched)
  obtain sn ts where st: "st = (sn, ts)" by (cases st)
  obtain sn' ts' where s: "sched_step e (sn, ts) i = (sn', ts')" by (cases "sched_step e (sn, ts) i")
  have inv: "pool_inv (sn, ts)" using Cons.prems st by simp
  note one = sched_step_inv [OF ok inv s]
  have "pool_inv (sn', ts')" using one by simp
  from Cons.IH [OF this] one show ?case
    by (simp add: st s del: sched_step.simps)
qed

lemma fresh_acquire_happens:
  "dummySyscallEventCount sn = 0 \<Longrightarrow> \<forall>p \<in> set ts. \<not> holding p \<Longrightarrow> AcqAdd \<in> set ts \<Longrightarrow>
   \<forall>p \<in> set (snd (exec e (sn, ts) sched)). p = Done \<Longrightarrow>
   1 \<le> fresh_acquires e (sn, ts) sched"
proof (induction sched arbitrary: sn ts)
  case Nil
  then show ?case by auto
next
  case (Cons i sched)
  show ?case
  proof (cases "i < length ts")
    case False
    then have "sched_step e (sn, ts) i = (sn, ts)" by simp
    then show ?thesis using Cons by simp
  next
    case True
    show ?thesis
    proof (cases "ts ! i = AcqAdd")
      case a: True
      then show ?thesis using True Cons.prems(1) by simp
    next
      case na: False
      have nh: "\<not> holding (ts ! i)" using Cons.prems(2) True by simp
      have s: "sched_step e (sn, ts) i = (sn, ts[i := Done])
           \<or> (\<exists>evID. sched_step e (sn, ts) i =
                 (sn\<lparr>calls := calls sn @ [UnregisterEvent evID]\<rparr>, ts[i := Done]))"
        using na nh True by (cases "ts ! i") auto
      obtain j where j: "j < length ts" "ts ! j = AcqAdd"
        using Cons.prems(3) by (auto simp: in_set_conv_nth)
      have "j \<noteq> i" using j na by auto
      then have "(ts[i := Done]) ! j = AcqAdd" using j by simp
      then have in': "AcqAdd \<in> set (ts[i := Done])" using j(1) by (metis length_list_update nth_mem)
      have nh': "\<forall>p \<in> set (ts[i := Done]). \<not> holding p"
        using Cons.prems(2) set_update_subset_insert [of ts i Done] by auto
      from s show ?thesis
      proof
        assume e1: "sched_step e (sn, ts) i = (sn, ts[i := Done])"
        have "1 \<le> fresh_acquires e (sn, ts[i := Done]) sched"
          using Cons.IH [OF Cons.prems(1) nh' in'] Cons.prems(4)
          by (simp add: e1 del: sched_step.simps)
        then show ?thesis by (simp add: e1 del: sched_step.simps)
      next
        assume "\<exists>evID. sched_step e (sn, ts) i =
                 (sn\<lparr>calls := calls sn @ [UnregisterEvent evID]\<rparr>, ts[i := Done])"
        then obtain evID where e2: "sched_step e (sn, ts) i =
                 (sn\<lparr>calls := calls sn @ [UnregisterEvent evID]\<rparr>, ts[i := Done])" by blast
        have c: "dummySyscallEventCount (sn\<lparr>calls := calls sn @ [UnregisterEvent evID]\<rparr>) = 0"
          using Cons.prems(1) by simp
        have "1 \<le> fresh_acquires e (sn\<lparr>calls := calls sn @ [UnregisterEvent evID]\<rparr>,
                  ts[i := Done]) sched"
          using Cons.IH [OF c nh' in'] Cons.prems(4)
          by (simp add: e2 del: sched_step.simps)
        then show ?thesis by (simp add: e2 del: sched_step.simps)
      qed
    qed
  qed
qed

lemma all_done_counts:
  "\<forall>p \<in> set ts. p = Done \<Longrightarrow> holders ts = 0 \<and> registering ts = 0 \<and> unregisterings ts = 0"
  by (induction ts) (simp_all add: holders_def registering_def unregisterings_def)

lemma all_fresh_counts:
  "holders (replicate K AcqAdd) = 0 \<and> registering (replicate K AcqAdd) = 0 \<and>
   unregisterings (replicate K AcqAdd) = 0"
  by (induction K) (simp_all add: holders_def registering_def unregisterings_def)

text \<open>
  C1 (as amended). On kernels from 3.x on, let \<open>K\<close> subscriptions each acquire the global
  dummy probe and release it once the acquire has returned, and let every engine
  registration succeed. Take any interleaving of the steps of these acquires and
  releases that runs all of them to their end. Then the \<^verbatim>\<open>RegisterTracepoint\<close> calls and
  the \<^verbatim>\<open>UnregisterEvent\<close> calls are equally many: one of each for every acquire that
  finds the count at 0, which is at least one when \<open>K > 0\<close>, and the count ends at 0.
  So there is exactly one call of each in exactly those interleavings in which only one
  acquire finds the count at 0, that is, in which the count, once positive, stays positive
  until the last release.
\<close>

theorem global_dummy_every_interleaving:
  assumes ok: "\<forall>h n. \<not> isl (tracepoint_reply e h n)"
    and zero: "dummySyscallEventCount sn = 0"
    and K: "K < 2^64"
    and run: "exec e (sn, replicate K AcqAdd) sched = (sn', ts')"
    and matched: "\<forall>p \<in> set ts'. p = Done"
  shows "RegisterTracepoint_calls (calls sn') =
           RegisterTracepoint_calls (calls sn) +
           fresh_acquires e (sn, replicate K AcqAdd) sched \<and>
         UnregisterEvent_calls (calls sn') =
           UnregisterEvent_calls (calls sn) +
           fresh_acquires e (sn, replicate K AcqAdd) sched \<and>
         dummySyscallEventCount sn' = 0 \<and>
         (0 < K \<longrightarrow> 1 \<le> fresh_acquires e (sn, replicate K AcqAdd) sched)"
proof -
  let ?st = "(sn, replicate K AcqAdd)"
  have inv: "pool_inv ?st"
    using zero K all_fresh_counts [of K] by (simp add: pool_inv_def)
  note ex = exec_inv [OF ok inv, of sched]
  have d: "holders ts' = 0 \<and> registering ts' = 0 \<and> unregisterings ts' = 0"
    using matched by (rule all_done_counts)
  have c: "dummySyscallEventCount sn' = 0"
    using ex d by (simp add: run pool_inv_def)
  have least: "0 < K \<longrightarrow> 1 \<le> fresh_acquires e ?st sched"
  proof
    assume "0 < K"
    then have "AcqAdd \<in> set (replicate K AcqAdd)" by simp
    moreover have "\<forall>p \<in> set (replicate K AcqAdd). \<not> holding p" by simp
    moreover have "\<forall>p \<in> set (snd (exec e ?st sched)). p = Done" using matched by (simp add: run)
    ultimately show "1 \<le> fresh_acquires e ?st sched"
      using zero by (intro fresh_acquire_happens)
  qed
  show ?thesis
    using ex d c least all_fresh_counts [of K] by (simp add: run)
qed

theorem global_dummy_interleaved_witness:
  "exec kernel4 (new_sensor 7, replicate 2 AcqAdd) [0, 1, 0, 0, 1, 0, 1, 0, 0] =
     (\<lparr>dummySyscallEventCount = 0, dummySyscallEventID = 1,
        ContainerCache_EventGroupID = 7, syscallOnce = False,
        syscallEnterName = [], syscallExitName = [],
        calls = [RegisterTracepoint [] fn_handleDummySysEnter 7 dummyFilter (Inr 1),
                 UnregisterEvent 1]\<rparr>,
      [Done, Done]) \<and>
   fresh_acquires kernel4 (new_sensor 7, replicate 2 AcqAdd) [0, 1, 0, 0, 1, 0, 1, 0, 0] = 1 \<and>
   RegisterTracepoint_calls
     [RegisterTracepoint [] fn_handleDummySysEnter 7 dummyFilter (Inr 1), UnregisterEvent 1] = 1 \<and>
   UnregisterEvent_calls
     [RegisterTracepoint [] fn_handleDummySysEnter 7 dummyFilter (Inr 1), UnregisterEvent 1] = 1"
proof -
  let ?sched = "[0, 1, 0, 0, 1, 0, 1, 0, 0] :: nat list"
  let ?S = "\<lparr>dummySyscallEventCount = 0, dummySyscallEventID = 1,
        ContainerCache_EventGroupID = 7, syscallOnce = False,
        syscallEnterName = [], syscallExitName = [],
        calls = [RegisterTracepoint [] fn_handleDummySysEnter 7 dummyFilter (Inr 1),
                 UnregisterEvent 1]\<rparr>"
  have ok: "\<forall>h n. \<not> isl (tracepoint_reply kernel4 h n)" by (simp add: kernel4_def)
  have zero: "dummySyscallEventCount (new_sensor 7) = 0" by (simp add: new_sensor_def)
  have K: "(2::nat) < 2^64" by simp
  have run: "exec kernel4 (new_sensor 7, replicate 2 AcqAdd) ?sched = (?S, [Done, Done])"
    by (simp add: numeral_2_eq_2 kernel4_def new_sensor_def atomic_AddInt64_def Let_def)
  have matched: "\<forall>p \<in> set [Done, Done]. p = Done" by simp
  have f: "fresh_acquires kernel4 (new_sensor 7, replicate 2 AcqAdd) ?sched = 1"
    by (simp add: numeral_2_eq_2 kernel4_def new_sensor_def atomic_AddInt64_def Let_def)
  note th = global_dummy_every_interleaving [OF ok zero K run matched]
  have "RegisterTracepoint_calls (calls ?S) = 1 \<and> UnregisterEvent_calls (calls ?S) = 1"
    using th by (simp only: f) (simp add: new_sensor_def RegisterTracepoint_calls_def
      UnregisterEvent_calls_def)
  then show ?thesis using run f by simp
qed

text \<open>
  Two acquires matched by two releases, interleaved as acquire, release, acquire, release:
  the probe is registered twice and unregistered twice, as whole operations and step by
  step.
\<close>

theorem acquire_release_twice_counterexample:
  "matched 0 [Acquire, Release, Acquire, Release] \<and>
   RegisterTracepoint_calls
     (calls (run kernel4 (new_sensor 7) [Acquire, Release, Acquire, Release])) = 2 \<and>
   UnregisterEvent_calls
     (calls (run kernel4 (new_sensor 7) [Acquire, Release, Acquire, Release])) = 2 \<and>
   exec kernel4 (new_sensor 7, [AcqAdd, AcqAdd]) [0, 0, 0, 0, 0, 0, 1, 1, 1, 1, 1, 1] =
     (\<lparr>dummySyscallEventCount = 0, dummySyscallEventID = 3,
        ContainerCache_EventGroupID = 7, syscallOnce = False,
        syscallEnterName = [], syscallExitName = [],
        calls = [RegisterTracepoint [] fn_handleDummySysEnter 7 dummyFilter (Inr 1),
                 UnregisterEvent 1,
                 RegisterTracepoint [] fn_handleDummySysEnter 7 dummyFilter (Inr 3),
                 UnregisterEvent 3]\<rparr>,
      [Done, Done])"
  by (simp add: kernel4_def new_sensor_def registerGlobalDummySyscallEvent_def
      unregister_closure_def atomic_AddInt64_def Let_def
      RegisterTracepoint_calls_def UnregisterEvent_calls_def)

section \<open>Registering the syscall event filters\<close>

subsection \<open>Failed registrations\<close>




lemmas enter_filter_defs =
  RegisterSyscallEnterEventFilter_def registerGlobalDummySyscallEvent_def
  registerLocalDummySyscallEvent_def createEventGroup_def
  unregister_closure_def registerKprobe_def IsKernelSymbolAvailable_q_def
  atomic_AddInt64_def logStatus_def Let_def







subsection \<open>Resolving the tracepoint names\<close>

lemma initSyscallNames_raw:
  "tracepoints e ''raw_syscalls/sys_enter'' \<Longrightarrow>
   initSyscallNames e sn =
     Inr (sn\<lparr>syscallEnterName := ''raw_syscalls/sys_enter'',
             syscallExitName := ''raw_syscalls/sys_exit'',
             calls := calls sn @ [DoesTracepointExist ''raw_syscalls/sys_enter'']\<rparr>)"
  by (simp add: initSyscallNames_def Let_def)

lemma initSyscallNames_fallback:
  "\<not> tracepoints e ''raw_syscalls/sys_enter'' \<Longrightarrow> tracepoints e ''syscalls/sys_enter'' \<Longrightarrow>
   initSyscallNames e sn =
     Inr (sn\<lparr>syscallEnterName := ''syscalls/sys_enter'',
             syscallExitName := ''syscalls/sys_exit'',
             calls := calls sn @ [DoesTracepointExist ''raw_syscalls/sys_enter'',
                                  DoesTracepointExist ''syscalls/sys_enter'']\<rparr>)"
  by (simp add: initSyscallNames_def Let_def)

lemma initSyscallNames_fatal:
  "\<not> tracepoints e ''raw_syscalls/sys_enter'' \<Longrightarrow> \<not> tracepoints e ''syscalls/sys_enter'' \<Longrightarrow>
   initSyscallNames e sn = Inl (Fatal ''No syscall sys_enter tracepoint exists!'')"
  by (simp add: initSyscallNames_def Let_def)

lemma enter_filter_after_once:
  assumes "syscallOnce sn"
  shows "\<exists>sn' sub'. RegisterSyscallEnterEventFilter e filt (sn, sub) = Inr (sn', sub') \<and>
           syscallOnce sn' \<and> syscallEnterName sn' = syscallEnterName sn \<and>
           syscallExitName sn' = syscallExitName sn \<and>
           tracepoint_queries (calls sn') = tracepoint_queries (calls sn)"
  using assms
  by (auto simp: enter_filter_defs syscallOnce_Do_def tracepoint_queries_def
      split: if_splits sum.splits prod.splits option.splits)

lemma exit_filter_after_once:
  assumes "syscallOnce sn"
  shows "\<exists>sn' sub'. RegisterSyscallExitEventFilter e filt (sn, sub) = Inr (sn', sub') \<and>
           syscallOnce sn' \<and> syscallEnterName sn' = syscallEnterName sn \<and>
           syscallExitName sn' = syscallExitName sn \<and>
           tracepoint_queries (calls sn') = tracepoint_queries (calls sn) \<and>
           (\<exists>r. calls sn' = calls sn @
              [RegisterTracepoint (syscallExitName sn) fn_handleSysExit (eventGroupID sub) filt r])"
  using assms
  by (auto simp: RegisterSyscallExitEventFilter_def registerTracepoint_def Let_def
      syscallOnce_Do_def tracepoint_queries_def split: sum.splits)

text \<open>
  C5. \<^verbatim>\<open>initSyscallNames\<close> picks \<^verbatim>\<open>raw_syscalls/sys_enter\<close> and \<^verbatim>\<open>raw_syscalls/sys_exit\<close>
  when the raw enter tracepoint exists, else \<^verbatim>\<open>syscalls/sys_enter\<close> and
  \<^verbatim>\<open>syscalls/sys_exit\<close> when that enter tracepoint exists, else it logs fatally and the
  registration call that triggered it does not return. \<^verbatim>\<open>syscallOnce\<close> runs it on the
  first use only: once it has run, every later registration call, on any subscription and
  whatever the kernel would answer then, keeps both names, asks no tracepoint existence
  question again, and registers under the names resolved the first time.
\<close>

theorem syscall_names_resolved_once:
  "(tracepoints e ''raw_syscalls/sys_enter'' \<longrightarrow>
      initSyscallNames e sn =
        Inr (sn\<lparr>syscallEnterName := ''raw_syscalls/sys_enter'',
                syscallExitName := ''raw_syscalls/sys_exit'',
                calls := calls sn @ [DoesTracepointExist ''raw_syscalls/sys_enter'']\<rparr>)) \<and>
   (\<not> tracepoints e ''raw_syscalls/sys_enter'' \<and> tracepoints e ''syscalls/sys_enter'' \<longrightarrow>
      initSyscallNames e sn =
        Inr (sn\<lparr>syscallEnterName := ''syscalls/sys_enter'',
                syscallExitName := ''syscalls/sys_exit'',
                calls := calls sn @ [DoesTracepointExist ''raw_syscalls/sys_enter'',
                                     DoesTracepointExist ''syscalls/sys_enter'']\<rparr>)) \<and>
   (\<not> tracepoints e ''raw_syscalls/sys_enter'' \<and> \<not> tracepoints e ''syscalls/sys_enter'' \<longrightarrow>
      initSyscallNames e sn = Inl (Fatal ''No syscall sys_enter tracepoint exists!'')) \<and>
   (\<not> syscallOnce sn \<longrightarrow>
      syscallOnce_Do (initSyscallNames e) sn =
        (case initSyscallNames e sn of
           Inl x \<Rightarrow> Inl x
         | Inr s \<Rightarrow> Inr (s\<lparr>syscallOnce := True\<rparr>)) \<and>
      (isl (initSyscallNames e sn) \<longrightarrow>
         isl (RegisterSyscallEnterEventFilter e filt (sn, sub)) \<and>
         isl (RegisterSyscallExitEventFilter e filt (sn, sub)))) \<and>
   (syscallOnce sn \<longrightarrow>
      syscallOnce_Do (initSyscallNames e) sn = Inr sn \<and>
      (\<exists>sn' sub'. RegisterSyscallEnterEventFilter e filt (sn, sub) = Inr (sn', sub') \<and>
         syscallOnce sn' \<and> syscallEnterName sn' = syscallEnterName sn \<and>
         syscallExitName sn' = syscallExitName sn \<and>
         tracepoint_queries (calls sn') = tracepoint_queries (calls sn)) \<and>
      (\<exists>sn' sub'. RegisterSyscallExitEventFilter e filt (sn, sub) = Inr (sn', sub') \<and>
         syscallOnce sn' \<and> syscallEnterName sn' = syscallEnterName sn \<and>
         syscallExitName sn' = syscallExitName sn \<and>
         tracepoint_queries (calls sn') = tracepoint_queries (calls sn) \<and>
         (\<exists>r. calls sn' = calls sn @
            [RegisterTracepoint (syscallExitName sn) fn_handleSysExit (eventGroupID sub)
               filt r])))"
proof -
  have a: "\<not> syscallOnce sn \<longrightarrow>
      syscallOnce_Do (initSyscallNames e) sn =
        (case initSyscallNames e sn of
           Inl x \<Rightarrow> Inl x
         | Inr s \<Rightarrow> Inr (s\<lparr>syscallOnce := True\<rparr>)) \<and>
      (isl (initSyscallNames e sn) \<longrightarrow>
         isl (RegisterSyscallEnterEventFilter e filt (sn, sub)) \<and>
         isl (RegisterSyscallExitEventFilter e filt (sn, sub)))"
    by (auto simp: syscallOnce_Do_def RegisterSyscallEnterEventFilter_def
        RegisterSyscallExitEventFilter_def split: sum.splits)
  have b: "syscallOnce sn \<longrightarrow> syscallOnce_Do (initSyscallNames e) sn = Inr sn"
    by (simp add: syscallOnce_Do_def)
  show ?thesis
    using a b initSyscallNames_raw [of e sn] initSyscallNames_fallback [of e sn]
      initSyscallNames_fatal [of e sn] enter_filter_after_once [of sn e filt sub]
      exit_filter_after_once [of sn e filt sub]
    by blast
qed

theorem syscall_names_witness:
  "syscallOnce_Do (initSyscallNames (raw_missing kernel4)) (new_sensor 7) =
     Inr ((new_sensor 7)\<lparr>syscallEnterName := ''syscalls/sys_enter'',
            syscallExitName := ''syscalls/sys_exit'',
            calls := [DoesTracepointExist ''raw_syscalls/sys_enter'',
                      DoesTracepointExist ''syscalls/sys_enter''],
            syscallOnce := True\<rparr>) \<and>
   RegisterSyscallExitEventFilter kernel4 ''f''
     ((new_sensor 7)\<lparr>syscallEnterName := ''syscalls/sys_enter'',
            syscallExitName := ''syscalls/sys_exit'',
            calls := [DoesTracepointExist ''raw_syscalls/sys_enter'',
                      DoesTracepointExist ''syscalls/sys_enter''],
            syscallOnce := True\<rparr>, new_Subscription) =
     Inr ((new_sensor 7)\<lparr>syscallEnterName := ''syscalls/sys_enter'',
            syscallExitName := ''syscalls/sys_exit'',
            calls := [DoesTracepointExist ''raw_syscalls/sys_enter'',
                      DoesTracepointExist ''syscalls/sys_enter'',
                      RegisterTracepoint ''syscalls/sys_exit'' fn_handleSysExit 0 ''f'' (Inr 3)],
            syscallOnce := True\<rparr>,
          new_Subscription\<lparr>eventSinks := [\<lparr>eventID = 3, unregister = None\<rparr>]\<rparr>)"
proof -
  let ?e = "raw_missing kernel4"
  have t: "\<not> tracepoints ?e ''raw_syscalls/sys_enter'' \<and> tracepoints ?e ''syscalls/sys_enter''"
    by (simp add: raw_missing_def kernel4_def)
  have n: "\<not> syscallOnce (new_sensor 7)" by (simp add: new_sensor_def)
  note th = syscall_names_resolved_once [of ?e "new_sensor 7" "''f''" new_Subscription]
  have i: "initSyscallNames ?e (new_sensor 7) =
        Inr ((new_sensor 7)\<lparr>syscallEnterName := ''syscalls/sys_enter'',
                syscallExitName := ''syscalls/sys_exit'',
                calls := calls (new_sensor 7) @ [DoesTracepointExist ''raw_syscalls/sys_enter'',
                                     DoesTracepointExist ''syscalls/sys_enter'']\<rparr>)"
    using th t by blast
  have d: "syscallOnce_Do (initSyscallNames ?e) (new_sensor 7) =
        (case initSyscallNames ?e (new_sensor 7) of
           Inl x \<Rightarrow> Inl x
         | Inr s \<Rightarrow> Inr (s\<lparr>syscallOnce := True\<rparr>))"
    using th n by blast
  have first: "syscallOnce_Do (initSyscallNames ?e) (new_sensor 7) =
     Inr ((new_sensor 7)\<lparr>syscallEnterName := ''syscalls/sys_enter'',
            syscallExitName := ''syscalls/sys_exit'',
            calls := [DoesTracepointExist ''raw_syscalls/sys_enter'',
                      DoesTracepointExist ''syscalls/sys_enter''],
            syscallOnce := True\<rparr>)"
    by (simp only: d i) (simp add: new_sensor_def)
  have later: "RegisterSyscallExitEventFilter kernel4 ''f''
     ((new_sensor 7)\<lparr>syscallEnterName := ''syscalls/sys_enter'',
            syscallExitName := ''syscalls/sys_exit'',
            calls := [DoesTracepointExist ''raw_syscalls/sys_enter'',
                      DoesTracepointExist ''syscalls/sys_enter''],
            syscallOnce := True\<rparr>, new_Subscription) =
     Inr ((new_sensor 7)\<lparr>syscallEnterName := ''syscalls/sys_enter'',
            syscallExitName := ''syscalls/sys_exit'',
            calls := [DoesTracepointExist ''raw_syscalls/sys_enter'',
                      DoesTracepointExist ''syscalls/sys_enter'',
                      RegisterTracepoint ''syscalls/sys_exit'' fn_handleSysExit 0 ''f'' (Inr 3)],
            syscallOnce := True\<rparr>,
          new_Subscription\<lparr>eventSinks := [\<lparr>eventID = 3, unregister = None\<rparr>]\<rparr>)"
    by (simp add: RegisterSyscallExitEventFilter_def registerTracepoint_def Let_def
        syscallOnce_Do_def kernel4_def new_sensor_def new_Subscription_def)
  show ?thesis using first later by blast
qed

subsection \<open>The syscall enter kprobe\<close>

text \<open>
  C6. A call of \<^verbatim>\<open>RegisterSyscallEnterEventFilter\<close> makes at most one kprobe request,
  and exactly one when it installs an event sink. The request names
  \<^verbatim>\<open>syscall_trace_enter_phase1\<close> when that kernel symbol is available and
  \<^verbatim>\<open>syscall_trace_enter\<close> otherwise, is not a return probe, and in both cases carries
  the same fetch arguments: the id at +120(%di) and arg0 to arg5 at their fixed offsets.
\<close>

theorem syscall_enter_kprobe_request:
  assumes "RegisterSyscallEnterEventFilter e filt (sn, sub) = Inr (sn', sub')"
  shows "(kprobe_requests (calls sn') = kprobe_requests (calls sn) \<or>
          kprobe_requests (calls sn') = kprobe_requests (calls sn) @
            [(if kernel_symbols e syscallNewEnterKprobeAddress
              then syscallNewEnterKprobeAddress else syscallOldEnterKprobeAddress,
              False, syscallEnterKprobeFetchargs)]) \<and>
         (eventSinks sub' = eventSinks sub \<or>
          kprobe_requests (calls sn') = kprobe_requests (calls sn) @
            [(if kernel_symbols e syscallNewEnterKprobeAddress
              then syscallNewEnterKprobeAddress else syscallOldEnterKprobeAddress,
              False, syscallEnterKprobeFetchargs)]) \<and>
         syscallNewEnterKprobeAddress = ''syscall_trace_enter_phase1'' \<and>
         syscallOldEnterKprobeAddress = ''syscall_trace_enter'' \<and>
         syscallEnterKprobeFetchargs =
           ''id=+120(%di):s64 arg0=+112(%di):u64 arg1=+104(%di):u64 arg2=+96(%di):u64 arg3=+56(%di):u64 arg4=+72(%di):u64 arg5=+64(%di):u64''"
proof -
  have c: "syscallEnterKprobeFetchargs =
           ''id=+120(%di):s64 arg0=+112(%di):u64 arg1=+104(%di):u64 arg2=+96(%di):u64 arg3=+56(%di):u64 arg4=+72(%di):u64 arg5=+64(%di):u64''"
    by (simp add: syscallEnterKprobeFetchargs_def)
  obtain sn0 where o: "syscallOnce_Do (initSyscallNames e) sn = Inr sn0"
    using assms by (auto simp: RegisterSyscallEnterEventFilter_def split: sum.splits)
  have q: "kprobe_requests (calls sn0) = kprobe_requests (calls sn)"
    using o by (auto simp: syscallOnce_Do_def initSyscallNames_def Let_def kprobe_requests_def
        List.map_filter_def split: if_splits)
  have "(kprobe_requests (calls sn') = kprobe_requests (calls sn) \<or>
          kprobe_requests (calls sn') = kprobe_requests (calls sn) @
            [(if kernel_symbols e syscallNewEnterKprobeAddress
              then syscallNewEnterKprobeAddress else syscallOldEnterKprobeAddress,
              False, syscallEnterKprobeFetchargs)]) \<and>
         (eventSinks sub' = eventSinks sub \<or>
          kprobe_requests (calls sn') = kprobe_requests (calls sn) @
            [(if kernel_symbols e syscallNewEnterKprobeAddress
              then syscallNewEnterKprobeAddress else syscallOldEnterKprobeAddress,
              False, syscallEnterKprobeFetchargs)])"
    using assms q
    by (auto simp: enter_filter_defs o kprobe_requests_def List.map_filter_def
        split: if_splits sum.splits prod.splits option.splits)
  then show ?thesis
    using c by (simp add: syscallNewEnterKprobeAddress_def syscallOldEnterKprobeAddress_def)
qed

theorem legacy_symbol_witness:
  "RegisterSyscallEnterEventFilter (new_symbol_missing kernel4) ''f''
     (new_sensor 7, new_Subscription) =
   Inr (\<lparr>dummySyscallEventCount = 1, dummySyscallEventID = 2,
          ContainerCache_EventGroupID = 7, syscallOnce = True,
          syscallEnterName = ''raw_syscalls/sys_enter'',
          syscallExitName = ''raw_syscalls/sys_exit'',
          calls =
            [DoesTracepointExist ''raw_syscalls/sys_enter'',
             RegisterTracepoint ''raw_syscalls/sys_enter'' fn_handleDummySysEnter 7
               ''id == 0x7fffffff'' (Inr 2),
             IsKernelSymbolAvailable ''syscall_trace_enter_phase1'',
             RegisterKprobe ''syscall_trace_enter'' False
               ''id=+120(%di):s64 arg0=+112(%di):u64 arg1=+104(%di):u64 arg2=+96(%di):u64 arg3=+56(%di):u64 arg4=+72(%di):u64 arg5=+64(%di):u64''
               fn_handleSyscallTraceEnter 0 ''f'' False (Inr 4)]\<rparr>,
        \<lparr>eventGroupID = 0,
           eventSinks = [\<lparr>eventID = 4, unregister = Some unregister_closure\<rparr>]\<rparr>) \<and>
   kprobe_requests
     [DoesTracepointExist ''raw_syscalls/sys_enter'',
      RegisterTracepoint ''raw_syscalls/sys_enter'' fn_handleDummySysEnter 7
        ''id == 0x7fffffff'' (Inr 2),
      IsKernelSymbolAvailable ''syscall_trace_enter_phase1'',
      RegisterKprobe ''syscall_trace_enter'' False
        ''id=+120(%di):s64 arg0=+112(%di):u64 arg1=+104(%di):u64 arg2=+96(%di):u64 arg3=+56(%di):u64 arg4=+72(%di):u64 arg5=+64(%di):u64''
        fn_handleSyscallTraceEnter 0 ''f'' False (Inr 4)] =
   [(''syscall_trace_enter'', False,
     ''id=+120(%di):s64 arg0=+112(%di):u64 arg1=+104(%di):u64 arg2=+96(%di):u64 arg3=+56(%di):u64 arg4=+72(%di):u64 arg5=+64(%di):u64'')]"
proof -
  let ?e = "new_symbol_missing kernel4"
  let ?cs = "[DoesTracepointExist ''raw_syscalls/sys_enter'',
             RegisterTracepoint ''raw_syscalls/sys_enter'' fn_handleDummySysEnter 7
               ''id == 0x7fffffff'' (Inr 2),
             IsKernelSymbolAvailable ''syscall_trace_enter_phase1'',
             RegisterKprobe ''syscall_trace_enter'' False
               ''id=+120(%di):s64 arg0=+112(%di):u64 arg1=+104(%di):u64 arg2=+96(%di):u64 arg3=+56(%di):u64 arg4=+72(%di):u64 arg5=+64(%di):u64''
               fn_handleSyscallTraceEnter 0 ''f'' False (Inr 4)]"
  let ?S = "\<lparr>dummySyscallEventCount = 1, dummySyscallEventID = 2,
          ContainerCache_EventGroupID = 7, syscallOnce = True,
          syscallEnterName = ''raw_syscalls/sys_enter'',
          syscallExitName = ''raw_syscalls/sys_exit'', calls = ?cs\<rparr>"
  let ?sub = "\<lparr>eventGroupID = 0,
           eventSinks = [\<lparr>eventID = 4, unregister = Some unregister_closure\<rparr>]\<rparr>"
  have run: "RegisterSyscallEnterEventFilter ?e ''f'' (new_sensor 7, new_Subscription) =
      Inr (?S, ?sub)"
    by (simp add: enter_filter_defs syscallOnce_Do_def initSyscallNames_def kernel4_def
        new_symbol_missing_def new_sensor_def new_Subscription_def dummyFilter_def
        syscallNewEnterKprobeAddress_def syscallOldEnterKprobeAddress_def
        syscallEnterKprobeFetchargs_def)
  note th = syscall_enter_kprobe_request [OF run]
  have grown: "eventSinks ?sub \<noteq> eventSinks new_Subscription"
    by (simp add: new_Subscription_def)
  have sym: "\<not> kernel_symbols ?e syscallNewEnterKprobeAddress"
    by (simp add: new_symbol_missing_def kernel4_def syscallNewEnterKprobeAddress_def)
  have "kprobe_requests (calls ?S) = kprobe_requests (calls (new_sensor 7)) @
            [(if kernel_symbols ?e syscallNewEnterKprobeAddress
              then syscallNewEnterKprobeAddress else syscallOldEnterKprobeAddress,
              False, syscallEnterKprobeFetchargs)]"
    using th grown by blast
  then have "kprobe_requests ?cs =
      [(''syscall_trace_enter'', False,
     ''id=+120(%di):s64 arg0=+112(%di):u64 arg1=+104(%di):u64 arg2=+96(%di):u64 arg3=+56(%di):u64 arg4=+72(%di):u64 arg5=+64(%di):u64'')]"
    using sym th
    by (simp add: new_sensor_def kprobe_requests_def List.map_filter_def)
  then show ?thesis using run by blast
qed

section \<open>Decoding\<close>

subsection \<open>Fields that a sample lacks\<close>













subsection \<open>All or nothing\<close>






subsection \<open>Socket addresses\<close>

lemma address_inet:
  "fst (GetUnsignedInt16 sample ''sa_family'') = AF_INET \<Longrightarrow>
   NetworkAddress_initWithSample sample zero_NetworkAddress =
     \<lparr>Family = AF_INET, UnixPath = [],
      IPv4Address = fst (GetUnsignedInt32 sample ''sin_addr''),
      IPv4Port = fst (GetUnsignedInt16 sample ''sin_port''),
      IPv6AddressHigh = 0, IPv6AddressLow = 0, IPv6Port = 0\<rparr>"
  by (simp add: NetworkAddress_initWithSample_def zero_NetworkAddress_def Let_def
      AF_LOCAL_def AF_INET_def AF_INET6_def)

lemma address_inet6:
  "fst (GetUnsignedInt16 sample ''sa_family'') = AF_INET6 \<Longrightarrow>
   NetworkAddress_initWithSample sample zero_NetworkAddress =
     \<lparr>Family = AF_INET6, UnixPath = [], IPv4Address = 0, IPv4Port = 0,
      IPv6AddressHigh = fst (GetUnsignedInt64 sample ''sin6_addr_high''),
      IPv6AddressLow = fst (GetUnsignedInt64 sample ''sin6_addr_low''),
      IPv6Port = fst (GetUnsignedInt16 sample ''sin6_port'')\<rparr>"
  by (simp add: NetworkAddress_initWithSample_def zero_NetworkAddress_def Let_def
      AF_LOCAL_def AF_INET_def AF_INET6_def)

lemma address_local:
  "fst (GetUnsignedInt16 sample ''sa_family'') = AF_LOCAL \<Longrightarrow>
   NetworkAddress_initWithSample sample zero_NetworkAddress =
     \<lparr>Family = AF_LOCAL, UnixPath = fst (GetString sample ''sun_path''),
      IPv4Address = 0, IPv4Port = 0,
      IPv6AddressHigh = 0, IPv6AddressLow = 0, IPv6Port = 0\<rparr>"
  by (simp add: NetworkAddress_initWithSample_def zero_NetworkAddress_def Let_def
      AF_LOCAL_def AF_INET_def AF_INET6_def)

lemma present_field:
  "sample name = Some (UnsignedInt16 a) \<Longrightarrow> fst (GetUnsignedInt16 sample name) = a"
  "sample name = Some (UnsignedInt32 b) \<Longrightarrow> fst (GetUnsignedInt32 sample name) = b"
  "sample name = Some (UnsignedInt64 c) \<Longrightarrow> fst (GetUnsignedInt64 sample name) = c"
  "sample name = Some (SignedInt64 d) \<Longrightarrow> fst (GetSignedInt64 sample name) = d"
  "sample name = Some (String p) \<Longrightarrow> fst (GetString sample name) = p"
  by (simp_all add: GetSignedInt64_def GetUnsignedInt16_def GetUnsignedInt32_def
      GetUnsignedInt64_def GetString_def)

text \<open>
  C8. The address of a bind, connect or sendto attempt is decoded from a zero address
  record by the decoded \<^verbatim>\<open>sa_family\<close>: for \<^verbatim>\<open>AF_INET\<close> only the IPv4 address and port
  are set, for \<^verbatim>\<open>AF_INET6\<close> only the IPv6 fields, for \<^verbatim>\<open>AF_LOCAL\<close> only the path, and
  the fields of the other families stay zero. A bind sample with family 2, port 80 and
  address 0x7F000001 is dispatched with exactly that IPv4 address and port and zero IPv6
  and path fields.
\<close>

theorem address_exclusive_by_family:
  "(fst (GetUnsignedInt16 sample ''sa_family'') = AF_INET \<longrightarrow>
      NetworkAddress_initWithSample sample zero_NetworkAddress =
        \<lparr>Family = AF_INET, UnixPath = [],
         IPv4Address = fst (GetUnsignedInt32 sample ''sin_addr''),
         IPv4Port = fst (GetUnsignedInt16 sample ''sin_port''),
         IPv6AddressHigh = 0, IPv6AddressLow = 0, IPv6Port = 0\<rparr>) \<and>
   (fst (GetUnsignedInt16 sample ''sa_family'') = AF_INET6 \<longrightarrow>
      NetworkAddress_initWithSample sample zero_NetworkAddress =
        \<lparr>Family = AF_INET6, UnixPath = [], IPv4Address = 0, IPv4Port = 0,
         IPv6AddressHigh = fst (GetUnsignedInt64 sample ''sin6_addr_high''),
         IPv6AddressLow = fst (GetUnsignedInt64 sample ''sin6_addr_low''),
         IPv6Port = fst (GetUnsignedInt16 sample ''sin6_port'')\<rparr>) \<and>
   (fst (GetUnsignedInt16 sample ''sa_family'') = AF_LOCAL \<longrightarrow>
      NetworkAddress_initWithSample sample zero_NetworkAddress =
        \<lparr>Family = AF_LOCAL, UnixPath = fst (GetString sample ''sun_path''),
         IPv4Address = 0, IPv4Port = 0,
         IPv6AddressHigh = 0, IPv6AddressLow = 0, IPv6Port = 0\<rparr>) \<and>
   (InitWithSample sample = Some t \<longrightarrow>
      handleSysBind InitWithSample eventid sample dispatched =
        dispatched @ [(eventid, NetworkBindAttemptTelemetryEvent t
          (NetworkAttempt_initWithSample sample zero_NetworkAttempt)
          (NetworkAddress_initWithSample sample zero_NetworkAddress))] \<and>
      handleSysConnect InitWithSample eventid sample dispatched =
        dispatched @ [(eventid, NetworkConnectAttemptTelemetryEvent t
          (NetworkAttempt_initWithSample sample zero_NetworkAttempt)
          (NetworkAddress_initWithSample sample zero_NetworkAddress))] \<and>
      handleSysSendto InitWithSample eventid sample dispatched =
        dispatched @ [(eventid, NetworkSendtoAttemptTelemetryEvent t
          (NetworkAttempt_initWithSample sample zero_NetworkAttempt)
          (NetworkAddress_initWithSample sample zero_NetworkAddress))]) \<and>
   (sample ''sa_family'' = Some (UnsignedInt16 2) \<and>
    sample ''sin_port'' = Some (UnsignedInt16 80) \<and>
    sample ''sin_addr'' = Some (UnsignedInt32 0x7F000001) \<and>
    InitWithSample sample = Some t \<longrightarrow>
      handleSysBind InitWithSample eventid sample dispatched =
        dispatched @ [(eventid, NetworkBindAttemptTelemetryEvent t
          (NetworkAttempt_initWithSample sample zero_NetworkAttempt)
          \<lparr>Family = 2, UnixPath = [], IPv4Address = 0x7F000001, IPv4Port = 80,
           IPv6AddressHigh = 0, IPv6AddressLow = 0, IPv6Port = 0\<rparr>)]) \<and>
   AF_LOCAL = 1 \<and> AF_INET = 2 \<and> AF_INET6 = 10"
proof -
  have ex: "sample ''sa_family'' = Some (UnsignedInt16 2) \<and>
    sample ''sin_port'' = Some (UnsignedInt16 80) \<and>
    sample ''sin_addr'' = Some (UnsignedInt32 0x7F000001) \<and>
    InitWithSample sample = Some t \<longrightarrow>
      handleSysBind InitWithSample eventid sample dispatched =
        dispatched @ [(eventid, NetworkBindAttemptTelemetryEvent t
          (NetworkAttempt_initWithSample sample zero_NetworkAttempt)
          \<lparr>Family = 2, UnixPath = [], IPv4Address = 0x7F000001, IPv4Port = 80,
           IPv6AddressHigh = 0, IPv6AddressLow = 0, IPv6Port = 0\<rparr>)]"
  proof
    assume a: "sample ''sa_family'' = Some (UnsignedInt16 2) \<and>
      sample ''sin_port'' = Some (UnsignedInt16 80) \<and>
      sample ''sin_addr'' = Some (UnsignedInt32 0x7F000001) \<and>
      InitWithSample sample = Some t"
    then have f: "fst (GetUnsignedInt16 sample ''sa_family'') = AF_INET"
      by (simp add: present_field AF_INET_def)
    show "handleSysBind InitWithSample eventid sample dispatched =
        dispatched @ [(eventid, NetworkBindAttemptTelemetryEvent t
          (NetworkAttempt_initWithSample sample zero_NetworkAttempt)
          \<lparr>Family = 2, UnixPath = [], IPv4Address = 0x7F000001, IPv4Port = 80,
           IPv6AddressHigh = 0, IPv6AddressLow = 0, IPv6Port = 0\<rparr>)]"
      using a by (simp add: handleSysBind_def DispatchEvent_def address_inet [OF f]
          present_field AF_INET_def)
  qed
  have h: "InitWithSample sample = Some t \<longrightarrow>
      handleSysBind InitWithSample eventid sample dispatched =
        dispatched @ [(eventid, NetworkBindAttemptTelemetryEvent t
          (NetworkAttempt_initWithSample sample zero_NetworkAttempt)
          (NetworkAddress_initWithSample sample zero_NetworkAddress))] \<and>
      handleSysConnect InitWithSample eventid sample dispatched =
        dispatched @ [(eventid, NetworkConnectAttemptTelemetryEvent t
          (NetworkAttempt_initWithSample sample zero_NetworkAttempt)
          (NetworkAddress_initWithSample sample zero_NetworkAddress))] \<and>
      handleSysSendto InitWithSample eventid sample dispatched =
        dispatched @ [(eventid, NetworkSendtoAttemptTelemetryEvent t
          (NetworkAttempt_initWithSample sample zero_NetworkAttempt)
          (NetworkAddress_initWithSample sample zero_NetworkAddress))]"
    by (simp add: handleSysBind_def handleSysConnect_def handleSysSendto_def DispatchEvent_def)
  have c: "AF_LOCAL = 1 \<and> AF_INET = 2 \<and> AF_INET6 = 10"
    by (simp add: AF_LOCAL_def AF_INET_def AF_INET6_def)
  show ?thesis
    using ex h c address_inet [of sample] address_inet6 [of sample] address_local [of sample]
    by blast
qed

theorem bind_scenario_witness:
  "handleSysBind (\<lambda>s. Some (1::nat)) 4 bind_sample [] =
     [(4, NetworkBindAttemptTelemetryEvent 1 \<lparr>FD = 3\<rparr>
            \<lparr>Family = 2, UnixPath = [], IPv4Address = 0x7F000001, IPv4Port = 80,
             IPv6AddressHigh = 0, IPv6AddressLow = 0, IPv6Port = 0\<rparr>)]"
proof -
  have a: "bind_sample ''sa_family'' = Some (UnsignedInt16 2) \<and>
    bind_sample ''sin_port'' = Some (UnsignedInt16 80) \<and>
    bind_sample ''sin_addr'' = Some (UnsignedInt32 0x7F000001) \<and>
    (\<lambda>s. Some (1::nat)) bind_sample = Some 1"
    by (simp add: bind_sample_def)
  have fd: "NetworkAttempt_initWithSample bind_sample zero_NetworkAttempt = \<lparr>FD = 3\<rparr>"
    by (simp add: NetworkAttempt_initWithSample_def zero_NetworkAttempt_def
        GetUnsignedInt64_def bind_sample_def)
  have "handleSysBind (\<lambda>s. Some (1::nat)) 4 bind_sample [] =
        [] @ [(4, NetworkBindAttemptTelemetryEvent 1
          (NetworkAttempt_initWithSample bind_sample zero_NetworkAttempt)
          \<lparr>Family = 2, UnixPath = [], IPv4Address = 0x7F000001, IPv4Port = 80,
           IPv6AddressHigh = 0, IPv6AddressLow = 0, IPv6Port = 0\<rparr>)]"
    using address_exclusive_by_family [of bind_sample "\<lambda>s. Some (1::nat)" 1 4 "[]"] a
    by blast
  then show ?thesis by (simp only: fd append.simps)
qed

text \<open>
  C10. When the decoded \<^verbatim>\<open>sa_family\<close> is none of \<^verbatim>\<open>AF_LOCAL\<close>, \<^verbatim>\<open>AF_INET\<close> and
  \<^verbatim>\<open>AF_INET6\<close>, the path, the IPv4 fields and the IPv6 fields all stay zero, and
  \<^verbatim>\<open>Family\<close> carries the decoded value.
\<close>

theorem other_family_leaves_addresses_zero:
  assumes "fst (GetUnsignedInt16 sample ''sa_family'') \<noteq> AF_LOCAL"
    and "fst (GetUnsignedInt16 sample ''sa_family'') \<noteq> AF_INET"
    and "fst (GetUnsignedInt16 sample ''sa_family'') \<noteq> AF_INET6"
  shows "NetworkAddress_initWithSample sample zero_NetworkAddress =
     \<lparr>Family = fst (GetUnsignedInt16 sample ''sa_family''), UnixPath = [],
      IPv4Address = 0, IPv4Port = 0,
      IPv6AddressHigh = 0, IPv6AddressLow = 0, IPv6Port = 0\<rparr>"
  using assms
  by (simp add: NetworkAddress_initWithSample_def zero_NetworkAddress_def Let_def)

theorem other_family_witness:
  "NetworkAddress_initWithSample (bind_sample(''sa_family'' \<mapsto> UnsignedInt16 16))
     zero_NetworkAddress =
     \<lparr>Family = 16, UnixPath = [], IPv4Address = 0, IPv4Port = 0,
      IPv6AddressHigh = 0, IPv6AddressLow = 0, IPv6Port = 0\<rparr>"
proof -
  let ?s = "bind_sample(''sa_family'' \<mapsto> UnsignedInt16 16)"
  have f: "fst (GetUnsignedInt16 ?s ''sa_family'') = 16"
    by (simp add: GetUnsignedInt16_def)
  have "fst (GetUnsignedInt16 ?s ''sa_family'') \<noteq> AF_LOCAL"
    and "fst (GetUnsignedInt16 ?s ''sa_family'') \<noteq> AF_INET"
    and "fst (GetUnsignedInt16 ?s ''sa_family'') \<noteq> AF_INET6"
    by (simp_all add: f AF_LOCAL_def AF_INET_def AF_INET6_def)
  from other_family_leaves_addresses_zero [OF this] show ?thesis
    by (simp only: f)
qed

section \<open>Kernels before 3.x: the local dummy probe\<close>

lemmas id_defs = dummy_ids_def probe_ids_def unregistered_ids_def List.map_filter_def

lemma once_ids:
  assumes "syscallOnce_Do (initSyscallNames e) sn = Inr sn0"
  shows "probe_ids (calls sn0) = probe_ids (calls sn) \<and>
         unregistered_ids (calls sn0) = unregistered_ids (calls sn) \<and>
         dummySyscallEventCount sn0 = dummySyscallEventCount sn"
  using assms
  by (auto simp: syscallOnce_Do_def initSyscallNames_def Let_def id_defs split: if_splits)

lemma local_subscribe_ids:
  assumes major: "kernel_major e < 3"
    and run: "RegisterSyscallEnterEventFilter e filt (sn, sub) = Inr (sn', sub')"
  shows "unregistered_ids (calls sn') = unregistered_ids (calls sn) \<and>
         dummySyscallEventCount sn' = dummySyscallEventCount sn \<and>
         (probe_ids (calls sn') = probe_ids (calls sn) \<and> eventSinks sub' = eventSinks sub \<or>
          (\<exists>k. probe_ids (calls sn') = probe_ids (calls sn) @ [k] \<and>
             eventSinks sub' = eventSinks sub @ [\<lparr>eventID = k, unregister = None\<rparr>]))"
proof -
  obtain sn0 where o: "syscallOnce_Do (initSyscallNames e) sn = Inr sn0"
    using run by (auto simp: RegisterSyscallEnterEventFilter_def split: sum.splits)
  note f = once_ids [OF o]
  show ?thesis
    using run major f
    by (auto simp: enter_filter_defs o id_defs
        split: if_splits sum.splits prod.splits option.splits)
qed

lemma removeEventSinks_no_hooks:
  "\<forall>es \<in> set sinks. unregister es = None \<Longrightarrow>
   removeEventSinks sinks sn = sn\<lparr>calls := calls sn @ map (\<lambda>es. UnregisterEvent (eventID es)) sinks\<rparr>"
  by (induction sinks arbitrary: sn) (simp_all add: Let_def)

lemma ids_of_unregisters:
  "dummy_ids (cs @ map (\<lambda>es. UnregisterEvent (eventID es)) sinks) = dummy_ids cs"
  "probe_ids (cs @ map (\<lambda>es. UnregisterEvent (eventID es)) sinks) = probe_ids cs"
  "unregistered_ids (cs @ map (\<lambda>es. UnregisterEvent (eventID es)) sinks) =
     unregistered_ids cs @ map eventID sinks"
  by (induction sinks) (simp_all add: id_defs)

lemma local_step_inv:
  assumes major: "kernel_major e < 3"
    and inv: "local_inv w" and step: "client_step e w x = Inr w'"
  shows "local_inv w' \<and> dummySyscallEventCount (fst w') = dummySyscallEventCount (fst w)"
proof (cases w)
  case (Pair sn subs)
  show ?thesis
  proof (cases x)
    case (Subscribe i filt)
    obtain sn' sub' where r: "RegisterSyscallEnterEventFilter e filt (sn, subs i) = Inr (sn', sub')"
      and w': "w' = (sn', subs(i := sub'))"
      using step Pair Subscribe by (auto split: sum.splits)
    note ids = local_subscribe_ids [OF major r]
    have u: "unregistered_ids (calls sn') = unregistered_ids (calls sn)"
      and c: "dummySyscallEventCount sn' = dummySyscallEventCount sn"
      using ids by simp_all
    have p: "set (probe_ids (calls sn)) \<subseteq> set (probe_ids (calls sn'))"
      using ids by auto
    have sinks: "\<forall>es \<in> set (eventSinks sub').
        unregister es = None \<and> eventID es \<in> set (probe_ids (calls sn'))"
      using ids inv Pair p by (auto simp: local_inv_def)
    have others: "\<forall>j. \<forall>es \<in> set (eventSinks (subs j)).
        unregister es = None \<and> eventID es \<in> set (probe_ids (calls sn'))"
      using inv Pair p by (auto simp: local_inv_def)
    have "set (unregistered_ids (calls sn')) \<subseteq> set (probe_ids (calls sn'))"
      using u p inv Pair by (auto simp: local_inv_def)
    then show ?thesis
      using sinks others c Pair by (auto simp: local_inv_def w')
  next
    case (Unsubscribe i)
    have nh: "\<forall>es \<in> set (eventSinks (subs i)). unregister es = None"
      using inv Pair by (auto simp: local_inv_def)
    let ?sn' = "sn\<lparr>calls := calls sn @
        map (\<lambda>es. UnregisterEvent (eventID es)) (eventSinks (subs i))\<rparr>"
    have w': "w' = (?sn', subs(i := (subs i)\<lparr>eventSinks := []\<rparr>))"
      using step Pair Unsubscribe by (auto simp: teardown_def removeEventSinks_no_hooks [OF nh])
    show ?thesis
      using inv Pair by (auto simp: local_inv_def w' ids_of_unregisters)
  qed
qed

lemma local_run_inv:
  assumes major: "kernel_major e < 3"
  shows "local_inv w \<Longrightarrow> client_run e w ops = Inr w' \<Longrightarrow>
    local_inv w' \<and> dummySyscallEventCount (fst w') = dummySyscallEventCount (fst w)"
proof (induction ops arbitrary: w)
  case Nil
  then show ?case by simp
next
  case (Cons x xs)
  obtain w1 where s: "client_step e w x = Inr w1" and r: "client_run e w1 xs = Inr w'"
    using Cons.prems(2) by (auto split: sum.splits)
  from local_step_inv [OF major Cons.prems(1) s] Cons.IH [OF _ r]
  show ?case by simp
qed

lemma local_dummy_registration:
  assumes "fst (registerLocalDummySyscallEvent e (s, sub))"
  shows "\<exists>g i. group_reply e (calls s) = Inr g \<and>
           snd (registerLocalDummySyscallEvent e (s, sub)) =
             (s\<lparr>calls := calls s @
                  [RegisterEventGroup (Inr g),
                   RegisterTracepoint (syscallEnterName s) fn_handleDummySysEnter g
                     dummyFilter (Inr i)]\<rparr>,
              sub\<lparr>eventGroupID := g\<rparr>)"
  using assms
  by (auto simp: registerLocalDummySyscallEvent_def createEventGroup_def logStatus_def Let_def
      split: sum.splits)

text \<open>
  C9. On a kernel of major version below 3, start from a fresh sensor and let clients
  subscribe to syscall enter events and unsubscribe in any order. Each successful
  \<^verbatim>\<open>registerLocalDummySyscallEvent\<close> creates an event group for the subscription and
  registers the dummy tracepoint in that group. No event sink ever gets an unregister
  hook, the reference count stays 0, and every \<^verbatim>\<open>UnregisterEvent\<close> call is for the id of
  a kprobe; so, the engine having given the dummy tracepoints ids other than the kprobes',
  no local dummy probe is ever unregistered. The scenario of two subscriptions and one
  unsubscription is worked out after the theorem.
\<close>

theorem local_dummy_never_unregistered:
  assumes major: "kernel_major e < 3"
    and run: "client_run e (new_sensor g0, \<lambda>_. new_Subscription) ops = Inr (sn', subs')"
    and distinct_ids: "set (dummy_ids (calls sn')) \<inter> set (probe_ids (calls sn')) = {}"
  shows "set (unregistered_ids (calls sn')) \<inter> set (dummy_ids (calls sn')) = {} \<and>
         set (unregistered_ids (calls sn')) \<subseteq> set (probe_ids (calls sn')) \<and>
         (\<forall>i. \<forall>es \<in> set (eventSinks (subs' i)). unregister es = None) \<and>
         dummySyscallEventCount sn' = 0 \<and>
         (fst (registerLocalDummySyscallEvent e (s, sub)) \<longrightarrow>
            (\<exists>g i. group_reply e (calls s) = Inr g \<and>
               snd (registerLocalDummySyscallEvent e (s, sub)) =
                 (s\<lparr>calls := calls s @
                      [RegisterEventGroup (Inr g),
                       RegisterTracepoint (syscallEnterName s) fn_handleDummySysEnter g
                         dummyFilter (Inr i)]\<rparr>,
                  sub\<lparr>eventGroupID := g\<rparr>)))"
proof -
  have "local_inv (new_sensor g0, \<lambda>_. new_Subscription)"
    by (simp add: local_inv_def new_sensor_def new_Subscription_def id_defs)
  from local_run_inv [OF major this run]
  have inv: "local_inv (sn', subs')" and c: "dummySyscallEventCount sn' = 0"
    by (simp_all add: new_sensor_def)
  have "set (unregistered_ids (calls sn')) \<inter> set (dummy_ids (calls sn')) = {}"
    using inv distinct_ids by (auto simp: local_inv_def)
  then show ?thesis
    using inv c local_dummy_registration [of e s sub] by (auto simp: local_inv_def)
qed

theorem local_dummy_scenario_witness:
  "map_sum id
     (\<lambda>w. (dummy_ids (calls (fst w)), probe_ids (calls (fst w)),
           unregistered_ids (calls (fst w))))
     (client_run kernel2 (new_sensor 7, \<lambda>_. new_Subscription)
        [Subscribe 0 ''a'', Subscribe 1 ''b'', Unsubscribe 0]) =
   Inr ([3, 7], [5, 9], [5])"
proof -
  let ?ops = "[Subscribe 0 ''a'', Subscribe 1 ''b'', Unsubscribe 0]"
  have "\<exists>sn' subs'. client_run kernel2 (new_sensor 7, \<lambda>_. new_Subscription) ?ops =
      Inr (sn', subs') \<and>
    calls sn' =
      [DoesTracepointExist ''raw_syscalls/sys_enter'',
       RegisterEventGroup (Inr 2),
       RegisterTracepoint ''raw_syscalls/sys_enter'' fn_handleDummySysEnter 2
         ''id == 0x7fffffff'' (Inr 3),
       IsKernelSymbolAvailable ''syscall_trace_enter_phase1'',
       RegisterKprobe ''syscall_trace_enter_phase1'' False syscallEnterKprobeFetchargs
         fn_handleSyscallTraceEnter 2 ''a'' False (Inr 5),
       RegisterEventGroup (Inr 6),
       RegisterTracepoint ''raw_syscalls/sys_enter'' fn_handleDummySysEnter 6
         ''id == 0x7fffffff'' (Inr 7),
       IsKernelSymbolAvailable ''syscall_trace_enter_phase1'',
       RegisterKprobe ''syscall_trace_enter_phase1'' False syscallEnterKprobeFetchargs
         fn_handleSyscallTraceEnter 6 ''b'' False (Inr 9),
       UnregisterEvent 5]"
    by (simp add: enter_filter_defs syscallOnce_Do_def initSyscallNames_def kernel2_def
        new_sensor_def new_Subscription_def dummyFilter_def teardown_def
        syscallNewEnterKprobeAddress_def)
  then obtain sn' subs' where
    run: "client_run kernel2 (new_sensor 7, \<lambda>_. new_Subscription) ?ops = Inr (sn', subs')"
    and log: "calls sn' =
      [DoesTracepointExist ''raw_syscalls/sys_enter'',
       RegisterEventGroup (Inr 2),
       RegisterTracepoint ''raw_syscalls/sys_enter'' fn_handleDummySysEnter 2
         ''id == 0x7fffffff'' (Inr 3),
       IsKernelSymbolAvailable ''syscall_trace_enter_phase1'',
       RegisterKprobe ''syscall_trace_enter_phase1'' False syscallEnterKprobeFetchargs
         fn_handleSyscallTraceEnter 2 ''a'' False (Inr 5),
       RegisterEventGroup (Inr 6),
       RegisterTracepoint ''raw_syscalls/sys_enter'' fn_handleDummySysEnter 6
         ''id == 0x7fffffff'' (Inr 7),
       IsKernelSymbolAvailable ''syscall_trace_enter_phase1'',
       RegisterKprobe ''syscall_trace_enter_phase1'' False syscallEnterKprobeFetchargs
         fn_handleSyscallTraceEnter 6 ''b'' False (Inr 9),
       UnregisterEvent 5]"
    by blast
  have d: "dummy_ids (calls sn') = [3, 7]" and p: "probe_ids (calls sn') = [5, 9]"
    and u: "unregistered_ids (calls sn') = [5]"
    by (simp_all add: log id_defs)
  have major: "kernel_major kernel2 < 3" by (simp add: kernel2_def)
  have distinct_ids: "set (dummy_ids (calls sn')) \<inter> set (probe_ids (calls sn')) = {}"
    by (simp add: d p)
  note th = local_dummy_never_unregistered [OF major run distinct_ids]
  have "set (unregistered_ids (calls sn')) \<inter> set (dummy_ids (calls sn')) = {}"
    using th by blast
  then show ?thesis by (simp only: run) (simp add: d p u)
qed

end
